theory Spec2Isabelle
  imports Main "HOL-Library.List_Lexorder" "HOL-Library.Char_ord"
begin

section \<open>Errors\<close>

text \<open>
  The exceptions the notebook's functions can raise, as values. \<open>OutOfBoundsDatetime\<close> is
  the pandas error for a date outside the range of a nanosecond timestamp.
\<close>

datatype error = OverflowError | ValueError | OutOfBoundsDatetime | KeyError | IndexError

section \<open>The proleptic Gregorian calendar of \<open>datetime\<close>\<close>

text \<open>
  \<open>dt.date\<close> values are triples (year, month, day). The tables and the conversions
  between a date and its ordinal (day 1 is 0001-01-01) are those of the \<open>datetime\<close>
  module; index 0 of each table is a placeholder.
\<close>

type_synonym dt_date = "int \<times> int \<times> int"

definition MINYEAR :: int where
  "MINYEAR = 1"

definition MAXYEAR :: int where
  "MAXYEAR = 9999"

definition DAYS_IN_MONTH :: "int list" where
  "DAYS_IN_MONTH = [-1, 31, 28, 31, 30, 31, 30, 31, 31, 30, 31, 30, 31]"

definition DAYS_BEFORE_MONTH :: "int list" where
  "DAYS_BEFORE_MONTH = [-1, 0, 31, 59, 90, 120, 151, 181, 212, 243, 273, 304, 334]"

definition is_leap :: "int \<Rightarrow> bool" where
  "is_leap y \<longleftrightarrow> y mod 4 = 0 \<and> (y mod 100 \<noteq> 0 \<or> y mod 400 = 0)"

definition days_before_year :: "int \<Rightarrow> int" where
  "days_before_year y = (let y' = y - 1 in y' * 365 + y' div 4 - y' div 100 + y' div 400)"

definition days_in_month :: "int \<Rightarrow> int \<Rightarrow> int" where
  "days_in_month y m = (if m = 2 \<and> is_leap y then 29 else DAYS_IN_MONTH ! nat m)"

definition days_before_month :: "int \<Rightarrow> int \<Rightarrow> int" where
  "days_before_month y m = DAYS_BEFORE_MONTH ! nat m + (if m > 2 \<and> is_leap y then 1 else 0)"

definition ymd2ord :: "int \<Rightarrow> int \<Rightarrow> int \<Rightarrow> int" where
  "ymd2ord y m d = days_before_year y + days_before_month y m + d"

definition DI400Y :: int where
  "DI400Y = 146097"

definition DI100Y :: int where
  "DI100Y = 36524"

definition DI4Y :: int where
  "DI4Y = 1461"

definition ord2ymd :: "int \<Rightarrow> dt_date" where
  "ord2ymd n0 =
     (let n = n0 - 1;
          n400 = n div DI400Y; n = n mod DI400Y;
          n100 = n div DI100Y; n = n mod DI100Y;
          n4 = n div DI4Y; n = n mod DI4Y;
          n1 = n div 365; n = n mod 365;
          y = n400 * 400 + 1 + n100 * 100 + n4 * 4 + n1
      in if n1 = 4 \<or> n100 = 4 then (y - 1, 12, 31)
         else
           let leapyear = (n1 = 3 \<and> (n4 \<noteq> 24 \<or> n100 = 3));
               m = (n + 50) div 32;
               preceding = DAYS_BEFORE_MONTH ! nat m + (if m > 2 \<and> leapyear then 1 else 0)
           in if preceding > n
              then let m' = m - 1;
                       preceding' = preceding
                         - (DAYS_IN_MONTH ! nat m' + (if m' = 2 \<and> leapyear then 1 else 0))
                   in (y, m', n - preceding' + 1)
              else (y, m, n - preceding + 1))"

text \<open>The C constructor takes its arguments as C ints before it checks their ranges.\<close>

definition c_int :: "int \<Rightarrow> bool" where
  "c_int n \<longleftrightarrow> - 2147483648 \<le> n \<and> n \<le> 2147483647"

definition dt_date :: "int \<Rightarrow> int \<Rightarrow> int \<Rightarrow> error + dt_date" where
  "dt_date y m d =
     (if \<not> (c_int y \<and> c_int m \<and> c_int d) then Inl OverflowError
      else if y < MINYEAR \<or> MAXYEAR < y then Inl ValueError
      else if m < 1 \<or> 12 < m then Inl ValueError
      else if d < 1 \<or> days_in_month y m < d then Inl ValueError
      else Inr (y, m, d))"

text \<open>
  \<open>date + relativedelta(months=k)\<close> of \<open>dateutil\<close>: the month moves by \<open>k\<close> with the
  year carried, the day is clipped to the length of the new month, and the new date is
  built by \<open>date.replace\<close>, which validates it.
\<close>

definition add_relativedelta_months :: "int \<Rightarrow> dt_date \<Rightarrow> error + dt_date" where
  "add_relativedelta_months months d0 =
     (case d0 of (y0, m0, day0) \<Rightarrow>
        let m1 = m0 + months;
            y = (if m1 > 12 then y0 + 1 else if m1 < 1 then y0 - 1 else y0);
            m = (if m1 > 12 then m1 - 12 else if m1 < 1 then m1 + 12 else m1);
            d = min (days_in_month y m) day0
        in dt_date y m d)"

section \<open>pandas timestamps at midnight\<close>

text \<open>
  Every timestamp of the roster is a midnight, so a timestamp is modelled by the ordinal
  of its day. A pandas \<open>Timestamp\<close> counts nanoseconds in 64 bits: the first midnight it
  can hold is 1677-09-22 and the last is 2262-04-11; a date outside fails with
  \<open>OutOfBoundsDatetime\<close>.
\<close>

type_synonym timestamp = int

definition Timestamp_min :: int where
  "Timestamp_min = ymd2ord 1677 9 22"

definition Timestamp_max :: int where
  "Timestamp_max = ymd2ord 2262 4 11"

definition Timestamp :: "dt_date \<Rightarrow> error + timestamp" where
  "Timestamp d =
     (case d of (y, m, dd) \<Rightarrow>
        let n = ymd2ord y m dd
        in if n < Timestamp_min \<or> Timestamp_max < n then Inl OutOfBoundsDatetime else Inr n)"

text \<open>\<open>pd.date_range(start, end, closed='left')\<close> with the default daily frequency.\<close>

definition date_range :: "dt_date \<Rightarrow> dt_date \<Rightarrow> error + timestamp list" where
  "date_range start end =
     (case Timestamp start of
        Inl e \<Rightarrow> Inl e
      | Inr s \<Rightarrow>
          (case Timestamp end of
             Inl e \<Rightarrow> Inl e
           | Inr e \<Rightarrow> Inr [s .. e - 1]))"

definition ts_year :: "timestamp \<Rightarrow> int" where
  "ts_year t = fst (ord2ymd t)"

definition ts_month :: "timestamp \<Rightarrow> int" where
  "ts_month t = fst (snd (ord2ymd t))"

definition ts_day :: "timestamp \<Rightarrow> int" where
  "ts_day t = snd (snd (ord2ymd t))"

definition DAY_NAMES :: "string list" where
  "DAY_NAMES = [''Monday'', ''Tuesday'', ''Wednesday'', ''Thursday'', ''Friday'',
                ''Saturday'', ''Sunday'']"

definition dayofweek :: "timestamp \<Rightarrow> int" where
  "dayofweek t = (t + 6) mod 7"

definition day_name :: "timestamp \<Rightarrow> string" where
  "day_name t = DAY_NAMES ! nat (dayofweek t)"

section \<open>Formatting\<close>

definition digit :: "int \<Rightarrow> char" where
  "digit n = ''0123456789'' ! nat (n mod 10)"

definition zfill2 :: "int \<Rightarrow> string" where
  "zfill2 n = [digit (n div 10), digit n]"

definition zfill4 :: "int \<Rightarrow> string" where
  "zfill4 n = [digit (n div 1000), digit (n div 100), digit (n div 10), digit n]"

text \<open>
  \<open>strftime\<close> with the directives the notebook uses: \<open>%Y\<close> (a year of a timestamp has
  four digits), \<open>%m\<close>, \<open>%d\<close> and \<open>%%\<close>. Any other character, and any other directive,
  is copied as it is.
\<close>

definition directive :: "char \<Rightarrow> timestamp \<Rightarrow> string" where
  "directive c t =
     (if c = CHR ''Y'' then zfill4 (ts_year t)
      else if c = CHR ''m'' then zfill2 (ts_month t)
      else if c = CHR ''d'' then zfill2 (ts_day t)
      else if c = CHR ''%'' then ''%''
      else [CHR ''%'', c])"

fun strftime :: "string \<Rightarrow> timestamp \<Rightarrow> string" where
  "strftime [] t = []"
| "strftime [c] t = [c]"
| "strftime (c # c' # fmt) t =
     (if c = CHR ''%'' then directive c' t @ strftime fmt t
      else c # strftime (c' # fmt) t)"

text \<open>\<open>sep.join(xs)\<close> of Python strings.\<close>

fun join :: "string \<Rightarrow> string list \<Rightarrow> string" where
  "join sep [] = []"
| "join sep [x] = x"
| "join sep (x # y # xs) = x @ sep @ join sep (y # xs)"

section \<open>The roster\<close>

text \<open>
  One row of the roster's DataFrame; its four columns are strings. While the roster is
  built the frame is indexed by the timestamps of its days, so a row of the frame under
  construction is paired with its timestamp; \<open>reset_index(drop=True)\<close> drops the index.
\<close>

record ShiftRecord =
  date :: string
  weekday :: string
  volunteers :: string
  "notes" :: string

text \<open>
  The optional \<open>meeting_time\<close>: the weekday name \<open>meeting_time[0]\<close>, the week of the
  month \<open>meeting_time[1]\<close>, and the start and end times \<open>meeting_time[2:]\<close>, which the
  note formats with \<open>{!s}\<close>; here they are strings already.
\<close>

type_synonym meeting = "string \<times> int \<times> string \<times> string"

text \<open>
  \<open>f['weekday'].map(lambda x: ' & '.join(volunteers_by_weekday[x]))\<close>: a lookup of a
  missing key raises \<open>KeyError\<close>.
\<close>

fun assign_volunteers ::
  "(string \<rightharpoonup> string list) \<Rightarrow> (timestamp \<times> string \<times> string) list
     \<Rightarrow> error + (timestamp \<times> ShiftRecord) list" where
  "assign_volunteers vbw [] = Inr []"
| "assign_volunteers vbw ((t, d, w) # rows) =
     (case vbw w of
        None \<Rightarrow> Inl KeyError
      | Some names \<Rightarrow>
          (case assign_volunteers vbw rows of
             Inl e \<Rightarrow> Inl e
           | Inr rs \<Rightarrow>
               Inr ((t, \<lparr>date = d, weekday = w, volunteers = join '' & '' names,
                         notes = ''''\<rparr>) # rs)))"

definition meeting_cond :: "meeting \<Rightarrow> timestamp \<times> ShiftRecord \<Rightarrow> bool" where
  "meeting_cond mt row =
     (case mt of (mw, n, start, end) \<Rightarrow>
        weekday (snd row) = mw \<and> ts_day (fst row) \<ge> 7 * (n - 1) \<and> ts_day (fst row) \<le> 7 * n)"

definition meeting_note :: "meeting \<Rightarrow> string" where
  "meeting_note mt = (case mt of (mw, n, start, end) \<Rightarrow> ''Staff meeting '' @ start @ ''--'' @ end)"

definition add_notes ::
  "meeting option \<Rightarrow> (timestamp \<times> ShiftRecord) list \<Rightarrow> (timestamp \<times> ShiftRecord) list" where
  "add_notes meeting_time f =
     (case meeting_time of
        None \<Rightarrow> f
      | Some mt \<Rightarrow>
          map (\<lambda>row. if meeting_cond mt row
                      then (fst row, (snd row)\<lparr>notes := meeting_note mt\<rparr>) else row) f)"

definition build_roster ::
  "int \<Rightarrow> int \<Rightarrow> (string \<rightharpoonup> string list) \<Rightarrow> meeting option \<Rightarrow> error + ShiftRecord list" where
  "build_roster y m volunteers_by_weekday meeting_time =
     (case dt_date y m 1 of
        Inl e \<Rightarrow> Inl e
      | Inr d1 \<Rightarrow>
          (case add_relativedelta_months 1 d1 of
             Inl e \<Rightarrow> Inl e
           | Inr d2 \<Rightarrow>
               (case date_range d1 d2 of
                  Inl e \<Rightarrow> Inl e
                | Inr ix \<Rightarrow>
                    let f = map (\<lambda>t. (t, strftime ''%Y-%m-%d'' t, day_name t)) ix;
                        f = filter (\<lambda>(t, d, w). volunteers_by_weekday w \<noteq> None) f
                    in (case assign_volunteers volunteers_by_weekday f of
                          Inl e \<Rightarrow> Inl e
                        | Inr f \<Rightarrow> Inr (map snd (add_notes meeting_time f))))))"

section \<open>The period label\<close>

text \<open>
  \<open>pd.to_datetime\<close> on the strings that \<open>build_roster\<close> writes, the form
  \<open>YYYY-MM-DD\<close>: ten characters, digits around two hyphens, naming a date of the
  calendar that a timestamp can hold. The other formats pandas accepts are outside this
  model, which answers \<open>ValueError\<close> for them; the theorems below only parse dates of
  the modelled form.
\<close>

definition is_digit :: "char \<Rightarrow> bool" where
  "is_digit c \<longleftrightarrow> c \<in> set ''0123456789''"

definition digit_val :: "char \<Rightarrow> int" where
  "digit_val c = int (of_char c) - 48"

definition int_of_digits :: "string \<Rightarrow> int" where
  "int_of_digits s = foldl (\<lambda>acc c. 10 * acc + digit_val c) 0 s"

definition to_datetime :: "string \<Rightarrow> error + timestamp" where
  "to_datetime s =
     (if length s = 10 \<and> s ! 4 = CHR ''-'' \<and> s ! 7 = CHR ''-''
         \<and> list_all is_digit (take 4 s @ take 2 (drop 5 s) @ drop 8 s)
      then (case dt_date (int_of_digits (take 4 s)) (int_of_digits (take 2 (drop 5 s)))
                         (int_of_digits (drop 8 s)) of
              Inl e \<Rightarrow> Inl e
            | Inr d \<Rightarrow> Timestamp d)
      else Inl ValueError)"




section \<open>The Markdown table\<close>

text \<open>
  \<open>to_csv(sep="|", index=False)\<close> writes through the \<open>csv\<close> module with minimal
  quoting, the quote character \<open>"\<close>, doubled quotes, no escape character and the line
  terminator \<open>\n\<close>. A field is quoted when it holds the delimiter, the quote character
  or a character of the line terminator; the writer of Python 3.8, the notebook's kernel,
  compares each character with the escape character too, which is NUL when none is set.
\<close>

definition delimiter :: char where
  "delimiter = CHR ''|''"

definition quotechar :: char where
  "quotechar = CHR 0x22"

definition escapechar :: char where
  "escapechar = CHR 0x00"

definition lineterminator :: string where
  "lineterminator = [CHR 0x0A]"

definition special :: "char \<Rightarrow> bool" where
  "special c \<longleftrightarrow> c = delimiter \<or> c = escapechar \<or> c = quotechar \<or> c \<in> set lineterminator"

definition quote_field :: "string \<Rightarrow> string" where
  "quote_field s =
     (if list_ex special s
      then [quotechar] @ concat (map (\<lambda>c. if c = quotechar then [c, c] else [c]) s) @ [quotechar]
      else s)"

text \<open>A row that is one empty field is written as a pair of quotes.\<close>

definition writerow :: "string list \<Rightarrow> string" where
  "writerow row =
     (if row = [[]] then [quotechar, quotechar]
      else join [delimiter] (map quote_field row)) @ lineterminator"

definition to_csv :: "string list \<Rightarrow> string list list \<Rightarrow> string" where
  "to_csv cols rows = concat (map writerow (cols # rows))"

definition columns :: "string list" where
  "columns = [''date'', ''weekday'', ''volunteers'', ''notes'']"

definition row_values :: "ShiftRecord \<Rightarrow> string list" where
  "row_values r = [date r, weekday r, volunteers r, notes r]"

text \<open>
  \<open>to_markdown\<close> puts a row of \<open>---\<close> above the rows of the frame and writes the
  result as CSV with the separator \<open>|\<close>. Without a path the text is returned; with a
  path it is stored in the file of that name and nothing is returned. The file system is
  a map from paths to contents; directories are not modelled.
\<close>

definition to_markdown ::
  "ShiftRecord list \<Rightarrow> string option \<Rightarrow> (string \<rightharpoonup> string)
     \<Rightarrow> string option \<times> (string \<rightharpoonup> string)" where
  "to_markdown f path files =
     (let cols = columns;
          header = replicate (length cols) ''---'';
          g = header # map row_values f;
          text = to_csv cols g
      in case path of
           None \<Rightarrow> (Some text, files)
         | Some p \<Rightarrow> (None, files(p \<mapsto> text)))"

section \<open>Reading a table back\<close>

text \<open>
  The reader the round-trip property of the specification describes: the text is split
  into rows on newlines and each row into fields on \<open>|\<close>; the header row and the
  \<open>---\<close> row below it are dropped. \<open>split\<close> is \<open>str.split(sep)\<close> for a separator of
  one character.
\<close>

fun split :: "char \<Rightarrow> string \<Rightarrow> string list" where
  "split sep [] = [[]]"
| "split sep (c # cs) =
     (if c = sep then [] # split sep cs
      else (case split sep cs of [] \<Rightarrow> [[c]] | x # xs \<Rightarrow> (c # x) # xs))"

definition table_lines :: "string \<Rightarrow> string list" where
  "table_lines text =
     (let ls = split (CHR 0x0A) text
      in if ls \<noteq> [] \<and> last ls = [] then butlast ls else ls)"

definition parse_table :: "string \<Rightarrow> string list list" where
  "parse_table text = drop 2 (map (split (CHR ''|'')) (table_lines text))"

section \<open>The months a roster can be built for\<close>

text \<open>
  The first day of the month and the first day of the next month must both be timestamps:
  the months from October 1677 to March 2262.
\<close>

definition supported_month :: "int \<Rightarrow> int \<Rightarrow> bool" where
  "supported_month y m \<longleftrightarrow>
     1 \<le> m \<and> m \<le> 12 \<and> (1677 < y \<or> (y = 1677 \<and> 10 \<le> m)) \<and> (y < 2262 \<or> (y = 2262 \<and> m \<le> 3))"

definition iso_date :: "int \<Rightarrow> int \<Rightarrow> int \<Rightarrow> string" where
  "iso_date y m d = zfill4 y @ ''-'' @ zfill2 m @ ''-'' @ zfill2 d"

text \<open>The name of the weekday of the calendar day \<open>(y, m, d)\<close>.\<close>

definition weekday_name :: "int \<Rightarrow> int \<Rightarrow> int \<Rightarrow> string" where
  "weekday_name y m d = day_name (ymd2ord y m d)"

text \<open>
  The days of the month \<open>(y, m)\<close> whose weekday is a key of the mapping, in calendar
  order, and the row the roster is expected to hold for such a day.
\<close>

definition roster_days :: "int \<Rightarrow> int \<Rightarrow> (string \<rightharpoonup> string list) \<Rightarrow> int list" where
  "roster_days y m vbw = filter (\<lambda>d. vbw (weekday_name y m d) \<noteq> None) [1 .. days_in_month y m]"

definition in_meeting_window :: "meeting option \<Rightarrow> string \<Rightarrow> int \<Rightarrow> bool" where
  "in_meeting_window meeting_time w d =
     (case meeting_time of
        None \<Rightarrow> False
      | Some (mw, n, start, end) \<Rightarrow> w = mw \<and> 7 * (n - 1) \<le> d \<and> d \<le> 7 * n)"

definition roster_row ::
  "int \<Rightarrow> int \<Rightarrow> (string \<rightharpoonup> string list) \<Rightarrow> meeting option \<Rightarrow> int \<Rightarrow> ShiftRecord" where
  "roster_row y m vbw meeting_time d =
     \<lparr>date = iso_date y m d,
      weekday = weekday_name y m d,
      volunteers = join '' & '' (the (vbw (weekday_name y m d))),
      notes = (if in_meeting_window meeting_time (weekday_name y m d) d
               then meeting_note (the meeting_time) else [])\<rparr>"

text \<open>The day of the month that the date string of a record names.\<close>

definition day_of_month :: "ShiftRecord \<Rightarrow> int" where
  "day_of_month r = int_of_digits (drop 8 (date r))"

section \<open>The table of the specification\<close>

text \<open>
  The specification's renderer joins the fields of each row with \<open>|\<close> as they are and
  ends each row with a newline: the column names, a row of \<open>---\<close>, then the records.
  A field is plain when none of its characters makes the CSV writer quote it.
\<close>

definition plain_row :: "string list \<Rightarrow> string" where
  "plain_row row = join ''|'' row @ [CHR 0x0A]"

definition plain_table :: "ShiftRecord list \<Rightarrow> string" where
  "plain_table f = concat (map plain_row (columns # replicate 4 ''---'' # map row_values f))"

definition plain_field :: "string \<Rightarrow> bool" where
  "plain_field s \<longleftrightarrow> list_all (\<lambda>c. \<not> special c) s"

definition plain_roster :: "ShiftRecord list \<Rightarrow> bool" where
  "plain_roster f \<longleftrightarrow> list_all (\<lambda>r. list_all plain_field (row_values r)) f"

section \<open>Ordinals and dates\<close>

lemma divmod_int:
  fixes q r b :: int
  assumes "0 \<le> r" "r < b"
  shows "(b * q + r) div b = q" and "(b * q + r) mod b = r"
  using assms by (simp_all add: div_pos_pos_trivial)

lemma year_decomp:
  fixes Y :: int
  assumes "0 \<le> Y"
  obtains a b c e where "Y = 400 * a + 100 * b + 4 * c + e"
    "0 \<le> a" "0 \<le> b" "b < 4" "0 \<le> c" "c < 25" "0 \<le> e" "e < 4"
proof -
  define a where "a = Y div 400"
  define r where "r = Y mod 400"
  define b where "b = r div 100"
  define r2 where "r2 = r mod 100"
  define c where "c = r2 div 4"
  define e where "e = r2 mod 4"
  have 1: "Y = 400 * a + r" "0 \<le> r" "r < 400" by (simp_all add: a_def r_def)
  have 2: "r = 100 * b + r2" "0 \<le> r2" "r2 < 100" by (simp_all add: b_def r2_def)
  have 3: "r2 = 4 * c + e" "0 \<le> e" "e < 4" by (simp_all add: c_def e_def)
  have "0 \<le> a" using assms by (simp add: a_def)
  moreover have "0 \<le> b" using 1 by (simp add: b_def)
  moreover have "b < 4" using 1 2 by linarith
  moreover have "0 \<le> c" using 2 by (simp add: c_def)
  moreover have "c < 25" using 2 3 by linarith
  moreover have "Y = 400 * a + 100 * b + 4 * c + e" using 1 2 3 by linarith
  ultimately show thesis using that 3 by blast
qed

lemma div_eqI:
  fixes x q r b :: int
  assumes "x = b * q + r" "0 \<le> r" "r < b"
  shows "x div b = q"
  using assms divmod_int(1)[of r b q] by simp

lemma mod_eqI:
  fixes x q r b :: int
  assumes "x = b * q + r" "0 \<le> r" "r < b"
  shows "x mod b = r"
  using assms divmod_int(2)[of r b q] by simp

lemma days_before_year_decomp:
  fixes a b c e :: int
  assumes "0 \<le> b" "b < 4" "0 \<le> c" "c < 25" "0 \<le> e" "e < 4"
  shows "days_before_year (400 * a + 100 * b + 4 * c + e + 1) =
           146097 * a + 36524 * b + 1461 * c + 365 * e"
proof -
  let ?Y = "400 * a + 100 * b + 4 * c + e"
  have d4: "?Y div 4 = 100 * a + 25 * b + c"
    by (rule div_eqI[where r = e]) (use assms in simp_all)
  have d100: "?Y div 100 = 4 * a + b"
    by (rule div_eqI[where r = "4 * c + e"]) (use assms in simp_all)
  have d400: "?Y div 400 = a"
    by (rule div_eqI[where r = "100 * b + 4 * c + e"]) (use assms in simp_all)
  show ?thesis
    unfolding days_before_year_def Let_def using d4 d100 d400 by simp
qed

lemma is_leap_decomp:
  fixes a b c e :: int
  assumes "0 \<le> b" "b < 4" "0 \<le> c" "c < 25" "0 \<le> e" "e < 4"
  shows "is_leap (400 * a + 100 * b + 4 * c + e + 1) \<longleftrightarrow> e = 3 \<and> (c \<noteq> 24 \<or> b = 3)"
proof -
  let ?y = "400 * a + 100 * b + 4 * c + e + 1"
  have m4: "?y mod 4 = (if e = 3 then 0 else e + 1)"
  proof (cases "e = 3")
    case True
    have "?y mod 4 = 0"
      by (rule mod_eqI[where q = "100 * a + 25 * b + c + 1"]) (use True in simp_all)
    then show ?thesis using True by simp
  next
    case False
    have "?y mod 4 = e + 1"
      by (rule mod_eqI[where q = "100 * a + 25 * b + c"]) (use False assms in simp_all)
    then show ?thesis using False by simp
  qed
  have m100: "?y mod 100 = (if e = 3 \<and> c = 24 then 0 else 4 * c + e + 1)"
  proof (cases "e = 3 \<and> c = 24")
    case True
    have "?y mod 100 = 0"
      by (rule mod_eqI[where q = "4 * a + b + 1"]) (use True in simp_all)
    then show ?thesis using True by simp
  next
    case False
    have "?y mod 100 = 4 * c + e + 1"
      by (rule mod_eqI[where q = "4 * a + b"]) (use False assms in \<open>simp_all, linarith\<close>)
    then show ?thesis using False by auto
  qed
  have m400: "?y mod 400 = (if e = 3 \<and> c = 24 \<and> b = 3 then 0 else 100 * b + 4 * c + e + 1)"
  proof (cases "e = 3 \<and> c = 24 \<and> b = 3")
    case True
    have "?y mod 400 = 0"
      by (rule mod_eqI[where q = "a + 1"]) (use True in simp_all)
    then show ?thesis using True by simp
  next
    case False
    have "?y mod 400 = 100 * b + 4 * c + e + 1"
      by (rule mod_eqI[where q = a]) (use False assms in \<open>simp_all, linarith\<close>)
    then show ?thesis using False by auto
  qed
  show ?thesis
    unfolding is_leap_def m4 m100 m400 using assms by auto
qed

lemma month_cases:
  fixes m :: int
  assumes "1 \<le> m" "m \<le> 12"
  obtains "m = 1" | "m = 2" | "m = 3" | "m = 4" | "m = 5" | "m = 6"
    | "m = 7" | "m = 8" | "m = 9" | "m = 10" | "m = 11" | "m = 12"
  using assms by atomize_elim arith

lemma div32_between:
  fixes x q :: int
  assumes "32 * q \<le> x" "x < 32 * q + 64"
  shows "(x div 32 = q \<or> x div 32 = q + 1) \<and> 32 * (x div 32) \<le> x"
proof -
  define qq r where "qq = x div 32" and "r = x mod 32"
  have x: "x = 32 * qq + r" "0 \<le> r" "r < 32" by (simp_all add: qq_def r_def)
  have "q < qq + 1" using x assms by linarith
  moreover have "qq < q + 2" using x assms by linarith
  ultimately have "qq = q \<or> qq = q + 1" by linarith
  moreover have "32 * qq \<le> x" using x by linarith
  ultimately show ?thesis unfolding qq_def by (rule conjI)
qed

lemma month_stage_bounds:
  fixes m d k :: int
  assumes m: "1 \<le> m" "m \<le> 12"
    and d: "1 \<le> d" "d \<le> DAYS_IN_MONTH ! nat m + (if m = 2 \<and> leap then 1 else 0)"
    and k: "k = DAYS_BEFORE_MONTH ! nat m + (if m > 2 \<and> leap then 1 else 0) + d - 1"
  shows "32 * m \<le> k + 50" "k + 50 < 32 * m + 64"
  by (rule month_cases[OF m];
      use d k in \<open>simp add: DAYS_IN_MONTH_def DAYS_BEFORE_MONTH_def split: if_splits\<close>)+

lemma month_stage_select:
  fixes m d k y mm :: int
  assumes m: "1 \<le> m" "m \<le> 12"
    and d: "1 \<le> d" "d \<le> DAYS_IN_MONTH ! nat m + (if m = 2 \<and> leap then 1 else 0)"
    and k: "k = DAYS_BEFORE_MONTH ! nat m + (if m > 2 \<and> leap then 1 else 0) + d - 1"
    and mm: "mm = m \<or> mm = m + 1" "32 * mm \<le> k + 50"
  shows "(let preceding = DAYS_BEFORE_MONTH ! nat mm + (if mm > 2 \<and> leap then 1 else 0)
          in if preceding > k
             then let m' = mm - 1;
                      preceding' = preceding
                         - (DAYS_IN_MONTH ! nat m' + (if m' = 2 \<and> leap then 1 else 0))
                  in (y, m', k - preceding' + 1)
             else (y, mm, k - preceding + 1)) = (y, m, d)"
  by (rule month_cases[OF m])
     (use mm d k in \<open>auto simp: DAYS_IN_MONTH_def DAYS_BEFORE_MONTH_def Let_def split: if_splits\<close>)

lemma month_stage:
  fixes m d k y :: int
  assumes m: "1 \<le> m" "m \<le> 12"
    and d: "1 \<le> d" "d \<le> DAYS_IN_MONTH ! nat m + (if m = 2 \<and> leap then 1 else 0)"
    and k: "k = DAYS_BEFORE_MONTH ! nat m + (if m > 2 \<and> leap then 1 else 0) + d - 1"
  shows "(let mm = (k + 50) div 32;
              preceding = DAYS_BEFORE_MONTH ! nat mm + (if mm > 2 \<and> leap then 1 else 0)
          in if preceding > k
             then let m' = mm - 1;
                      preceding' = preceding
                         - (DAYS_IN_MONTH ! nat m' + (if m' = 2 \<and> leap then 1 else 0))
                  in (y, m', k - preceding' + 1)
             else (y, mm, k - preceding + 1)) = (y, m, d)"
proof -
  note b = div32_between[OF month_stage_bounds[OF m d k]]
  show ?thesis
    unfolding Let_def[of "(k + 50) div 32"]
    by (rule month_stage_select[OF m d k conjunct1[OF b] conjunct2[OF b]])
qed

lemma ord2ymd_core:
  fixes a b c e k m d n0 :: int
  defines "leap \<equiv> e = 3 \<and> (c \<noteq> 24 \<or> b = 3)"
  assumes bnd: "0 \<le> b" "b < 4" "0 \<le> c" "c < 25" "0 \<le> e" "e < 4"
    and m: "1 \<le> m" "m \<le> 12"
    and d: "1 \<le> d" "d \<le> DAYS_IN_MONTH ! nat m + (if m = 2 \<and> leap then 1 else 0)"
    and k: "k = DAYS_BEFORE_MONTH ! nat m + (if m > 2 \<and> leap then 1 else 0) + d - 1"
    and n0: "n0 - 1 = 146097 * a + (36524 * b + (1461 * c + (365 * e + k)))"
  shows "ord2ymd n0 = (a * 400 + 1 + b * 100 + c * 4 + e, m, d)"
proof -
  from m consider "m = 1" | "m = 2" | "m = 3" | "m = 4" | "m = 5" | "m = 6"
    | "m = 7" | "m = 8" | "m = 9" | "m = 10" | "m = 11" | "m = 12"
    by atomize_elim arith
  then have kb: "0 \<le> k \<and> k \<le> 365 \<and> (\<not> leap \<longrightarrow> k < 365) \<and> (k = 365 \<longrightarrow> m = 12 \<and> d = 31)"
    using d k by cases (auto simp: DAYS_IN_MONTH_def DAYS_BEFORE_MONTH_def split: if_splits)
  let ?R3 = "365 * e + k"
  let ?R2 = "1461 * c + ?R3"
  let ?R1 = "36524 * b + ?R2"
  have s1: "(146097 * a + ?R1) div 146097 = a" "(146097 * a + ?R1) mod 146097 = ?R1"
    by (rule divmod_int; use bnd kb in linarith)+
  show ?thesis
  proof (cases "k = 365")
    case True
    with kb have e3: "e = 3" and md: "m = 12" "d = 31" by (auto simp: leap_def)
    show ?thesis
    proof (cases "c = 24")
      case c24: True
      with kb True have b3: "b = 3" by (auto simp: leap_def)
      show ?thesis
        unfolding ord2ymd_def Let_def DI400Y_def DI100Y_def DI4Y_def n0 s1
        using True e3 md c24 b3 by simp
    next
      case c24: False
      have s2: "?R1 div 36524 = b" "?R1 mod 36524 = ?R2"
        by (rule divmod_int; use bnd kb c24 True e3 in linarith)+
      have s3: "?R2 div 1461 = c" "?R2 mod 1461 = ?R3"
        by (rule divmod_int; use bnd kb c24 True e3 in linarith)+
      show ?thesis
        unfolding ord2ymd_def Let_def DI400Y_def DI100Y_def DI4Y_def n0 s1 s2 s3
        using True e3 md bnd by simp
    qed
  next
    case False
    with kb have k365: "k < 365" by simp
    have s2: "?R1 div 36524 = b" "?R1 mod 36524 = ?R2"
      by (rule divmod_int; use bnd kb k365 in linarith)+
    have s3: "?R2 div 1461 = c" "?R2 mod 1461 = ?R3"
      by (rule divmod_int; use bnd kb k365 in linarith)+
    have s4: "?R3 div 365 = e" "?R3 mod 365 = k"
      by (rule divmod_int; use bnd kb k365 in linarith)+
    have nsp: "(e = 4 \<or> b = 4) = False" using bnd by simp
    show ?thesis
      unfolding ord2ymd_def Let_def DI400Y_def DI100Y_def DI4Y_def n0 s1 s2 s3 s4 nsp if_False
      using month_stage[OF m d k, unfolded Let_def leap_def] by simp
  qed
qed

lemma ord2ymd_ymd2ord:
  fixes y m d :: int
  assumes "1 \<le> y" "1 \<le> m" "m \<le> 12" "1 \<le> d" "d \<le> days_in_month y m"
  shows "ord2ymd (ymd2ord y m d) = (y, m, d)"
proof -
  from assms(1) have "0 \<le> y - 1" by simp
  then obtain a b c e where Y: "y - 1 = 400 * a + 100 * b + 4 * c + e"
    and bnd: "0 \<le> b" "b < 4" "0 \<le> c" "c < 25" "0 \<le> e" "e < 4"
    by (rule year_decomp)
  then have y: "y = 400 * a + 100 * b + 4 * c + e + 1" by simp
  have leap: "is_leap y \<longleftrightarrow> e = 3 \<and> (c \<noteq> 24 \<or> b = 3)"
    unfolding y by (rule is_leap_decomp[OF bnd])
  have dby: "days_before_year y = 146097 * a + 36524 * b + 1461 * c + 365 * e"
    unfolding y by (rule days_before_year_decomp[OF bnd])
  have d': "d \<le> DAYS_IN_MONTH ! nat m + (if m = 2 \<and> (e = 3 \<and> (c \<noteq> 24 \<or> b = 3)) then 1 else 0)"
    using assms leap by (auto simp: days_in_month_def DAYS_IN_MONTH_def)
  define k where "k = DAYS_BEFORE_MONTH ! nat m + (if m > 2 \<and> (e = 3 \<and> (c \<noteq> 24 \<or> b = 3)) then 1 else 0) + d - 1"
  have n0: "ymd2ord y m d - 1 = 146097 * a + (36524 * b + (1461 * c + (365 * e + k)))"
    unfolding ymd2ord_def dby days_before_month_def k_def leap by simp
  show ?thesis
    using ord2ymd_core[OF bnd assms(2,3,4) d' k_def n0] y by simp
qed

lemma map_add_upto':
  fixes a i j :: int
  shows "map (\<lambda>d. a + d) [i..j] = [a + i .. a + j]"
proof (induction i j rule: upto.induct)
  case (1 i j)
  show ?case
  proof (cases "i \<le> j")
    case True
    then show ?thesis using 1 by (simp add: upto_rec1[of i j] upto_rec1[of "a + i" "a + j"] add.assoc)
  next
    case False
    then show ?thesis by simp
  qed
qed

lemma div_step:
  fixes y n :: int
  assumes "0 < n"
  shows "y div n = (y - 1) div n + (if y mod n = 0 then 1 else 0)"
proof (cases "y mod n = 0")
  case True
  have "(y - 1) div n = y div n - 1"
  proof (rule div_eqI[where r = "n - 1"])
    have "y = n * (y div n)" using True by (metis add.right_neutral mult_div_mod_eq)
    then show "y - 1 = n * (y div n - 1) + (n - 1)" by (simp add: algebra_simps)
  qed (use assms in simp_all)
  then show ?thesis using True by simp
next
  case False
  have "(y - 1) div n = y div n"
  proof (rule div_eqI[where r = "y mod n - 1"])
    show "y - 1 = n * (y div n) + (y mod n - 1)" by simp
    have "0 \<le> y mod n" using assms by simp
    then show "0 \<le> y mod n - 1" using False by linarith
    have "y mod n < n" using assms by simp
    then show "y mod n - 1 < n" by linarith
  qed
  then show ?thesis using False by simp
qed

lemma days_before_year_step_aux:
  fixes y :: int
  assumes d4: "y div 4 = (y - 1) div 4 + a4"
   and d100: "y div 100 = (y - 1) div 100 + a100"
   and d400: "y div 400 = (y - 1) div 400 + a400"
  shows "days_before_year (y + 1) = days_before_year y + (365 + a4 - a100 + a400)"
  unfolding days_before_year_def Let_def
  using assms by (simp add: algebra_simps)

lemma leap_count:
  assumes "P100 \<Longrightarrow> P4" "P400 \<Longrightarrow> P100"
  shows "365 + (if P4 then 1 else 0) - (if P100 then 1 else 0) + (if P400 then 1 else 0)
           = (if P4 \<and> (\<not> P100 \<or> P400) then 366 else (365::int))"
  using assms by auto

lemma days_before_year_step:
  "days_before_year (y + 1) = days_before_year y + (if is_leap y then 366 else 365)"
proof -
  have m1: "y mod 100 = 0 \<Longrightarrow> y mod 4 = 0"
    using mod_mod_cancel[of 4 100 y] by simp
  have m2: "y mod 400 = 0 \<Longrightarrow> y mod 100 = 0"
    using mod_mod_cancel[of 100 400 y] by simp
  have d4: "y div 4 = (y - 1) div 4 + (if y mod 4 = 0 then 1 else 0)"
    by (rule div_step) simp
  have d100: "y div 100 = (y - 1) div 100 + (if y mod 100 = 0 then 1 else 0)"
    by (rule div_step) simp
  have d400: "y div 400 = (y - 1) div 400 + (if y mod 400 = 0 then 1 else 0)"
    by (rule div_step) simp
  show ?thesis
    unfolding days_before_year_step_aux[OF d4 d100 d400] is_leap_def
    by (simp only: leap_count[of "y mod 100 = 0" "y mod 4 = 0" "y mod 400 = 0", OF m1 m2])
qed

lemma days_before_year_mono:
  assumes "y \<le> y'"
  shows "days_before_year y \<le> days_before_year y'"
  using assms
proof (induction y' rule: int_ge_induct)
  case base
  show ?case by simp
next
  case (step i)
  have "days_before_year i \<le> days_before_year (i + 1)"
    by (simp add: days_before_year_step)
  with step show ?case by linarith
qed

lemma days_in_month_bounds:
  assumes "1 \<le> m" "m \<le> 12"
  shows "28 \<le> days_in_month y m" "days_in_month y m \<le> 31"
  using assms by (cases m rule: month_cases; simp add: days_in_month_def DAYS_IN_MONTH_def)+

lemma days_before_month_Suc:
  assumes "1 \<le> m" "m < 12"
  shows "days_before_month y (m + 1) = days_before_month y m + days_in_month y m"
proof -
  from assms have "1 \<le> m" "m \<le> 12" by simp_all
  then show ?thesis using assms(2)
    by (cases m rule: month_cases)
       (simp_all add: days_before_month_def days_in_month_def DAYS_IN_MONTH_def DAYS_BEFORE_MONTH_def)
qed

lemma days_before_month_12:
  "days_before_month y 12 + days_in_month y 12 = (if is_leap y then 366 else 365)"
  by (simp add: days_before_month_def days_in_month_def DAYS_IN_MONTH_def DAYS_BEFORE_MONTH_def)

lemma days_before_month_1: "days_before_month y 1 = 0"
  by (simp add: days_before_month_def DAYS_BEFORE_MONTH_def)

lemma ymd2ord_next_month:
  assumes "1 \<le> m" "m \<le> 12"
  shows "ymd2ord (if m = 12 then y + 1 else y) (if m = 12 then 1 else m + 1) 1
           = ymd2ord y m 1 + days_in_month y m"
proof (cases "m = 12")
  case True
  then show ?thesis
    using days_before_month_12[of y]
    by (simp add: ymd2ord_def days_before_year_step days_before_month_1)
next
  case False
  with assms have "m < 12" by simp
  then show ?thesis using False days_before_month_Suc[OF assms(1), of y]
    by (simp add: ymd2ord_def)
qed

lemma days_before_month_bounds:
  assumes "1 \<le> m" "m \<le> 12"
  shows "0 \<le> days_before_month y m" "days_before_month y m + days_in_month y m \<le> (if is_leap y then 366 else 365)"
  using assms
  by (cases m rule: month_cases;
      simp add: days_before_month_def days_in_month_def DAYS_IN_MONTH_def DAYS_BEFORE_MONTH_def)+

section \<open>What \<open>build_roster\<close> computes\<close>

lemma dby_values:
  "days_before_year 1677 = 612147" "days_before_year 1678 = 612512"
  "days_before_year 2262 = 825813" "days_before_year 2263 = 826178"
  by (simp_all add: days_before_year_def)

lemma Timestamp_bounds_values: "Timestamp_min = 612412" "Timestamp_max = 825914"
  by (simp_all add: Timestamp_min_def Timestamp_max_def ymd2ord_def days_before_year_def
      days_before_month_def DAYS_BEFORE_MONTH_def is_leap_def)

lemma leap_values: "\<not> is_leap 1677" "\<not> is_leap 2262"
  by (simp_all add: is_leap_def)

lemma supported_month_lower:
  assumes "supported_month y m"
  shows "Timestamp_min \<le> ymd2ord y m 1"
proof (cases "y = 1677")
  case True
  with assms have "m = 10 \<or> m = 11 \<or> m = 12" unfolding supported_month_def by arith
  then show ?thesis using True
    by (auto simp: Timestamp_bounds_values ymd2ord_def dby_values days_before_month_def
        DAYS_BEFORE_MONTH_def leap_values)
next
  case False
  with assms have y: "1678 \<le> y" and m: "1 \<le> m" "m \<le> 12" unfolding supported_month_def by auto
  have "days_before_year 1678 \<le> days_before_year y" by (rule days_before_year_mono[OF y])
  moreover have "0 \<le> days_before_month y m" by (rule days_before_month_bounds[OF m])
  ultimately show ?thesis by (simp add: Timestamp_bounds_values ymd2ord_def dby_values)
qed

lemma ymd2ord_month_end:
  assumes "1 \<le> m" "m \<le> 12"
  shows "ymd2ord y m 1 + days_in_month y m \<le> days_before_year (y + 1) + 1"
  using days_before_month_bounds(2)[OF assms, of y]
  by (simp add: ymd2ord_def days_before_year_step)

lemma supported_month_upper:
  assumes "supported_month y m"
  shows "ymd2ord y m 1 + days_in_month y m \<le> Timestamp_max"
proof (cases "y = 2262")
  case True
  with assms have "m = 1 \<or> m = 2 \<or> m = 3" unfolding supported_month_def by arith
  then show ?thesis using True
    by (auto simp: Timestamp_bounds_values ymd2ord_def dby_values days_before_month_def
        days_in_month_def DAYS_IN_MONTH_def DAYS_BEFORE_MONTH_def leap_values)
next
  case False
  with assms have y: "y + 1 \<le> 2262" and m: "1 \<le> m" "m \<le> 12" unfolding supported_month_def by auto
  have "days_before_year (y + 1) \<le> days_before_year 2262" by (rule days_before_year_mono[OF y])
  with ymd2ord_month_end[OF m, of y] show ?thesis
    by (simp add: Timestamp_bounds_values dby_values)
qed

lemma unsupported_month_bounds:
  assumes m: "1 \<le> m" "m \<le> 12" and "\<not> supported_month y m"
  shows "ymd2ord y m 1 < Timestamp_min \<or> Timestamp_max < ymd2ord y m 1 + days_in_month y m"
proof -
  from assms consider "y < 1677" | "y = 1677" "m < 10" | "y = 2262" "3 < m" | "2262 < y"
    unfolding supported_month_def by atomize_elim arith
  then show ?thesis
  proof cases
    case 1
    then have "days_before_year (y + 1) \<le> days_before_year 1677"
      by (intro days_before_year_mono) simp
    moreover have "28 \<le> days_in_month y m" by (rule days_in_month_bounds[OF m])
    ultimately show ?thesis using ymd2ord_month_end[OF m, of y]
      by (simp add: Timestamp_bounds_values dby_values)
  next
    case 2
    with m show ?thesis
      by (cases m rule: month_cases)
         (simp_all add: Timestamp_bounds_values ymd2ord_def dby_values days_before_month_def
           DAYS_BEFORE_MONTH_def leap_values)
  next
    case 3
    with m show ?thesis
      by (cases m rule: month_cases)
         (simp_all add: Timestamp_bounds_values ymd2ord_def dby_values days_before_month_def
           days_in_month_def DAYS_IN_MONTH_def DAYS_BEFORE_MONTH_def leap_values)
  next
    case 4
    then have "days_before_year 2263 \<le> days_before_year y"
      by (intro days_before_year_mono) simp
    moreover have "0 \<le> days_before_month y m" by (rule days_before_month_bounds[OF m])
    moreover have "28 \<le> days_in_month y m" by (rule days_in_month_bounds[OF m])
    ultimately show ?thesis
      by (simp add: Timestamp_bounds_values ymd2ord_def dby_values)
  qed
qed

lemma dt_date_first:
  assumes "1 \<le> y" "y \<le> 9999" "1 \<le> m" "m \<le> 12"
  shows "dt_date y m 1 = Inr (y, m, 1)"
  using assms days_in_month_bounds(1)[OF assms(3,4), of y]
  by (simp add: dt_date_def c_int_def MINYEAR_def MAXYEAR_def)

lemma supported_month_year:
  assumes "supported_month y m"
  shows "1 \<le> y" "y \<le> 9998" "1 \<le> m" "m \<le> 12"
  using assms unfolding supported_month_def by auto

lemma add_relativedelta_months_first:
  assumes "1 \<le> y" "y \<le> 9998" "1 \<le> m" "m \<le> 12"
  shows "add_relativedelta_months 1 (y, m, 1)
           = Inr (if m = 12 then y + 1 else y, if m = 12 then 1 else m + 1, 1)"
proof (cases "m = 12")
  case True
  have "days_in_month (y + 1) 1 = 31" by (simp add: days_in_month_def DAYS_IN_MONTH_def)
  then show ?thesis using True assms dt_date_first[of "y + 1" 1]
    by (simp add: add_relativedelta_months_def)
next
  case False
  with assms have m': "1 \<le> m + 1" "m + 1 \<le> 12" by simp_all
  have "28 \<le> days_in_month y (m + 1)" by (rule days_in_month_bounds[OF m'])
  then have "min (days_in_month y (m + 1)) 1 = 1" by simp
  then show ?thesis using False assms dt_date_first[of y "m + 1"]
    by (simp add: add_relativedelta_months_def)
qed

lemma ymd2ord_day: "ymd2ord y m d = ymd2ord y m 1 + (d - 1)"
  by (simp add: ymd2ord_def)

lemma date_range_month:
  assumes "supported_month y m"
  shows "date_range (y, m, 1) (if m = 12 then y + 1 else y, if m = 12 then 1 else m + 1, 1)
           = Inr (map (ymd2ord y m) [1 .. days_in_month y m])"
proof -
  note ym = supported_month_year[OF assms]
  let ?s = "ymd2ord y m 1"
  let ?n = "days_in_month y m"
  have n: "28 \<le> ?n" by (rule days_in_month_bounds[OF ym(3,4)])
  have e: "ymd2ord (if m = 12 then y + 1 else y) (if m = 12 then 1 else m + 1) 1 = ?s + ?n"
    by (rule ymd2ord_next_month[OF ym(3,4)])
  have lo: "Timestamp_min \<le> ?s" by (rule supported_month_lower[OF assms])
  have hi: "?s + ?n \<le> Timestamp_max" by (rule supported_month_upper[OF assms])
  have t1: "Timestamp (y, m, 1) = Inr ?s"
    using lo hi n by (simp add: Timestamp_def)
  have t2: "Timestamp (if m = 12 then y + 1 else y, if m = 12 then 1 else m + 1, 1) = Inr (?s + ?n)"
    using lo hi n e by (simp add: Timestamp_def Let_def)
  have "map (ymd2ord y m) [1 .. ?n] = map (\<lambda>d. (?s - 1) + d) [1 .. ?n]"
    by (rule map_cong[OF refl]) (simp add: ymd2ord_def)
  also have "\<dots> = [(?s - 1) + 1 .. (?s - 1) + ?n]"
    by (rule map_add_upto')
  also have "\<dots> = [?s .. ?s + ?n - 1]"
    by (simp add: algebra_simps)
  finally show ?thesis
    unfolding date_range_def t1 t2 by simp
qed

lemma strftime_iso:
  "strftime ''%Y-%m-%d'' t = zfill4 (ts_year t) @ ''-'' @ zfill2 (ts_month t) @ ''-'' @ zfill2 (ts_day t)"
  by (simp add: directive_def)

lemma timestamp_fields:
  assumes "1 \<le> y" "1 \<le> m" "m \<le> 12" "d \<in> set [1 .. days_in_month y m]"
  shows "ts_year (ymd2ord y m d) = y" "ts_month (ymd2ord y m d) = m" "ts_day (ymd2ord y m d) = d"
  using assms ord2ymd_ymd2ord[of y m d]
  by (simp_all add: ts_year_def ts_month_def ts_day_def)

lemma assign_volunteers_map:
  assumes "\<forall>d \<in> set ds. vbw (w d) \<noteq> None"
  shows "assign_volunteers vbw (map (\<lambda>d. (t d, s d, w d)) ds)
           = Inr (map (\<lambda>d. (t d, \<lparr>date = s d, weekday = w d,
                                   volunteers = join '' & '' (the (vbw (w d))), notes = []\<rparr>)) ds)"
  using assms by (induction ds) auto

lemma build_roster_supported:
  assumes "supported_month y m"
  shows "build_roster y m vbw meeting_time
           = Inr (map (roster_row y m vbw meeting_time) (roster_days y m vbw))"
proof -
  note ym = supported_month_year[OF assms]
  let ?ds = "[1 .. days_in_month y m]"
  let ?g = "\<lambda>d. (ymd2ord y m d, iso_date y m d, weekday_name y m d)"
  have d1: "dt_date y m 1 = Inr (y, m, 1)"
    using ym by (intro dt_date_first) simp_all
  have d2: "add_relativedelta_months 1 (y, m, 1)
              = Inr (if m = 12 then y + 1 else y, if m = 12 then 1 else m + 1, 1)"
    by (rule add_relativedelta_months_first[OF ym])
  have ix: "date_range (y, m, 1) (if m = 12 then y + 1 else y, if m = 12 then 1 else m + 1, 1)
              = Inr (map (ymd2ord y m) ?ds)"
    by (rule date_range_month[OF assms])
  have f0: "map (\<lambda>t. (t, strftime ''%Y-%m-%d'' t, day_name t)) (map (ymd2ord y m) ?ds) = map ?g ?ds"
    unfolding map_map
    by (rule map_cong[OF refl])
       (simp del: strftime.simps
          add: strftime_iso timestamp_fields[OF ym(1,3,4)] iso_date_def weekday_name_def)
  have f1: "filter (\<lambda>(t, d, w). vbw w \<noteq> None) (map ?g ?ds) = map ?g (roster_days y m vbw)"
    by (simp add: filter_map roster_days_def comp_def)
  have present: "\<forall>d \<in> set (roster_days y m vbw). vbw (weekday_name y m d) \<noteq> None"
    by (simp add: roster_days_def)
  have f2: "assign_volunteers vbw (map ?g (roster_days y m vbw))
      = Inr (map (\<lambda>d. (ymd2ord y m d, \<lparr>date = iso_date y m d, weekday = weekday_name y m d,
            volunteers = join '' & '' (the (vbw (weekday_name y m d))), notes = []\<rparr>))
          (roster_days y m vbw))"
    by (rule assign_volunteers_map[OF present])
  have f3: "map snd (add_notes meeting_time
        (map (\<lambda>d. (ymd2ord y m d, \<lparr>date = iso_date y m d, weekday = weekday_name y m d,
            volunteers = join '' & '' (the (vbw (weekday_name y m d))), notes = []\<rparr>))
          (roster_days y m vbw)))
      = map (roster_row y m vbw meeting_time) (roster_days y m vbw)"
  proof (cases meeting_time)
    case None
    then show ?thesis
      by (simp add: add_notes_def roster_row_def in_meeting_window_def comp_def)
  next
    case (Some mt)
    obtain mw n st en where mt: "mt = (mw, n, st, en)" by (cases mt)
    have "\<And>d. d \<in> set (roster_days y m vbw) \<Longrightarrow> ts_day (ymd2ord y m d) = d"
      using timestamp_fields(3)[OF ym(1,3,4)] by (simp add: roster_days_def)
    then show ?thesis
      unfolding Some mt add_notes_def option.case map_map
      by (intro map_cong[OF refl])
         (simp add: roster_row_def in_meeting_window_def meeting_cond_def meeting_note_def)
  qed
  show ?thesis
    unfolding build_roster_def d1 d2 ix sum.case Let_def f0 f1 f2 f3 ..
qed

lemma add_relativedelta_months_last:
  "add_relativedelta_months 1 (9999, 12, 1) = Inl ValueError"
  by (simp add: add_relativedelta_months_def dt_date_def c_int_def MINYEAR_def MAXYEAR_def
      days_in_month_def DAYS_IN_MONTH_def)

lemma add_relativedelta_months_next:
  assumes "1 \<le> y" "y \<le> 9999" "1 \<le> m" "m \<le> 12" "m \<noteq> 12"
  shows "add_relativedelta_months 1 (y, m, 1) = Inr (y, m + 1, 1)"
proof -
  from assms have m': "1 \<le> m + 1" "m + 1 \<le> 12" by simp_all
  have "28 \<le> days_in_month y (m + 1)" by (rule days_in_month_bounds[OF m'])
  then have "min (days_in_month y (m + 1)) 1 = 1" by simp
  then show ?thesis using assms dt_date_first[of y "m + 1"]
    by (simp add: add_relativedelta_months_def)
qed

lemma Timestamp_Inl:
  "Timestamp d = Inl e \<Longrightarrow> e = OutOfBoundsDatetime"
  by (cases d) (simp add: Timestamp_def Let_def split: if_splits)

lemma date_range_unsupported:
  assumes m: "1 \<le> m" "m \<le> 12" and "\<not> supported_month y m"
  shows "date_range (y, m, 1) (if m = 12 then y + 1 else y, if m = 12 then 1 else m + 1, 1)
           = Inl OutOfBoundsDatetime"
proof -
  let ?next = "(if m = 12 then y + 1 else y, if m = 12 then 1 else m + 1, 1)"
  have e: "ymd2ord (if m = 12 then y + 1 else y) (if m = 12 then 1 else m + 1) 1
             = ymd2ord y m 1 + days_in_month y m"
    by (rule ymd2ord_next_month[OF m])
  from unsupported_month_bounds[OF assms]
  show ?thesis
  proof
    assume "ymd2ord y m 1 < Timestamp_min"
    then show ?thesis by (simp add: date_range_def Timestamp_def)
  next
    assume hi: "Timestamp_max < ymd2ord y m 1 + days_in_month y m"
    have t2: "Timestamp ?next = Inl OutOfBoundsDatetime"
      unfolding Timestamp_def prod.case Let_def e using hi by simp
    show ?thesis
    proof (cases "Timestamp (y, m, 1)")
      case (Inl err)
      then show ?thesis using Timestamp_Inl[OF Inl] by (simp add: date_range_def)
    next
      case (Inr n)
      then show ?thesis unfolding date_range_def t2 by simp
    qed
  qed
qed

lemma build_roster_unsupported:
  assumes "\<not> supported_month y m"
  shows "build_roster y m vbw meeting_time =
     Inl (if \<not> (c_int y \<and> c_int m) then OverflowError
          else if y < 1 \<or> 9999 < y \<or> m < 1 \<or> 12 < m \<or> (y = 9999 \<and> m = 12) then ValueError
          else OutOfBoundsDatetime)"
proof -
  consider (ovf) "\<not> (c_int y \<and> c_int m)"
    | (range) "c_int y" "c_int m" "y < 1 \<or> 9999 < y \<or> m < 1 \<or> 12 < m"
    | (last) "y = 9999" "m = 12"
    | (ok) "1 \<le> y" "y \<le> 9999" "1 \<le> m" "m \<le> 12" "\<not> (y = 9999 \<and> m = 12)"
    by atomize_elim (cases "c_int y \<and> c_int m"; simp; linarith)
  then show ?thesis
  proof cases
    case ovf
    then have "dt_date y m 1 = Inl OverflowError" by (simp add: dt_date_def)
    then show ?thesis using ovf by (simp add: build_roster_def)
  next
    case range
    have "c_int 1" by (simp add: c_int_def)
    with range have "dt_date y m 1 = Inl ValueError"
      by (auto simp: dt_date_def MINYEAR_def MAXYEAR_def)
    then show ?thesis using range by (auto simp: build_roster_def)
  next
    case last
    have "dt_date 9999 12 1 = Inr (9999, 12, 1)" by (rule dt_date_first) simp_all
    then show ?thesis using last
      by (simp add: build_roster_def add_relativedelta_months_last c_int_def)
  next
    case ok
    have ci: "c_int y" "c_int m" using ok by (simp_all add: c_int_def)
    have d1: "dt_date y m 1 = Inr (y, m, 1)" by (rule dt_date_first[OF ok(1-4)])
    have d2: "add_relativedelta_months 1 (y, m, 1)
              = Inr (if m = 12 then y + 1 else y, if m = 12 then 1 else m + 1, 1)"
    proof (cases "m = 12")
      case True
      with ok have "y \<le> 9998" by simp
      from add_relativedelta_months_first[OF ok(1) this ok(3,4)] show ?thesis .
    next
      case False
      then show ?thesis using add_relativedelta_months_next[OF ok(1-4)] by simp
    qed
    have ix: "date_range (y, m, 1) (if m = 12 then y + 1 else y, if m = 12 then 1 else m + 1, 1)
           = Inl OutOfBoundsDatetime"
      by (rule date_range_unsupported[OF ok(3,4) assms])
    show ?thesis
      unfolding build_roster_def d1 d2 ix sum.case using ok ci by simp
  qed
qed

lemma build_roster_Inr_iff:
  "(\<exists>roster. build_roster y m vbw meeting_time = Inr roster) \<longleftrightarrow> supported_month y m"
  by (cases "supported_month y m") (simp_all add: build_roster_supported build_roster_unsupported)

lemma build_roster_InrD:
  assumes "build_roster y m vbw meeting_time = Inr roster"
  shows "supported_month y m"
    and "roster = map (roster_row y m vbw meeting_time) (roster_days y m vbw)"
proof -
  show s: "supported_month y m" using assms build_roster_Inr_iff by blast
  show "roster = map (roster_row y m vbw meeting_time) (roster_days y m vbw)"
    using assms build_roster_supported[OF s, of vbw meeting_time] by simp
qed

lemma roster_days_range:
  assumes "d \<in> set (roster_days y m vbw)"
  shows "1 \<le> d" "d \<le> days_in_month y m" "vbw (weekday_name y m d) \<noteq> None"
  using assms by (simp_all add: roster_days_def)

section \<open>Digits and date strings\<close>

lemma small_mod:
  fixes q :: int
  assumes "0 \<le> q" "q < 10"
  shows "q mod 10 = q"
  using assms by (rule mod_pos_pos_trivial)

lemma digits_order:
  fixes a b :: int
  assumes "0 \<le> a" "a < b" "b < 100"
  shows "(a div 10) mod 10 < (b div 10) mod 10
          \<or> ((a div 10) mod 10 = (b div 10) mod 10 \<and> a mod 10 < b mod 10)"
proof -
  define qa ra qb rb where "qa = a div 10" and "ra = a mod 10" and "qb = b div 10" and "rb = b mod 10"
  have a: "a = 10 * qa + ra" "0 \<le> ra" "ra < 10" by (simp_all add: qa_def ra_def)
  have b: "b = 10 * qb + rb" "0 \<le> rb" "rb < 10" by (simp_all add: qb_def rb_def)
  have q: "0 \<le> qa" "qa < 10" "0 \<le> qb" "qb < 10" using a b assms by linarith+
  have m: "qa mod 10 = qa" "qb mod 10 = qb" using q by (simp_all only: small_mod)
  have "qa < qb \<or> (qa = qb \<and> ra < rb)" using a b assms by arith
  then show ?thesis unfolding qa_def[symmetric] ra_def[symmetric] qb_def[symmetric] rb_def[symmetric] m .
qed

lemma digits2_value:
  fixes n :: int
  assumes "0 \<le> n" "n < 100"
  shows "10 * (n div 10 mod 10) + n mod 10 = n"
proof -
  define q r where "q = n div 10" and "r = n mod 10"
  have n: "n = 10 * q + r" "0 \<le> r" "r < 10" by (simp_all add: q_def r_def)
  have "0 \<le> q" "q < 10" using n assms by linarith+
  then have "q mod 10 = q" by (rule small_mod)
  then show ?thesis unfolding q_def[symmetric] r_def[symmetric] using n(1) by (simp only:)
qed

lemma digits4_value:
  fixes n :: int
  assumes "0 \<le> n" "n < 10000"
  shows "10 * (10 * (10 * (n div 1000 mod 10) + n div 100 mod 10) + n div 10 mod 10) + n mod 10 = n"
proof -
  define q1 q2 q3 where "q1 = n div 10" and "q2 = n div 100" and "q3 = n div 1000"
  define r0 r1 r2 where "r0 = n mod 10" and "r1 = q1 mod 10" and "r2 = q2 mod 10"
  have d2: "q1 div 10 = q2" unfolding q1_def q2_def using zdiv_zmult2_eq[of 10 n 10] by simp
  have d3: "q2 div 10 = q3" unfolding q2_def q3_def using zdiv_zmult2_eq[of 10 n 100] by simp
  have e0: "n = 10 * q1 + r0" by (simp add: q1_def r0_def)
  have e1: "q1 = 10 * q2 + r1" using mult_div_mod_eq[of 10 q1] unfolding d2 r1_def by simp
  have e2: "q2 = 10 * q3 + r2" using mult_div_mod_eq[of 10 q2] unfolding d3 r2_def by simp
  have r: "0 \<le> r0" "0 \<le> r1" "0 \<le> r2" by (simp_all add: r0_def r1_def r2_def)
  have "0 \<le> q3" using assms by (simp add: q3_def)
  moreover have "q3 < 10" using e0 e1 e2 r assms by linarith
  ultimately have "q3 mod 10 = q3" by (rule small_mod)
  moreover have "10 * (10 * (10 * q3 + r2) + r1) + r0 = n" by (simp only: e2[symmetric] e1[symmetric] e0[symmetric])
  ultimately show ?thesis unfolding q1_def[symmetric] q2_def[symmetric] q3_def[symmetric]
      r0_def[symmetric] r1_def[symmetric] r2_def[symmetric] by (simp only:)
qed

lemma digit_range:
  fixes n :: int
  obtains "n mod 10 = 0" | "n mod 10 = 1" | "n mod 10 = 2" | "n mod 10 = 3" | "n mod 10 = 4"
    | "n mod 10 = 5" | "n mod 10 = 6" | "n mod 10 = 7" | "n mod 10 = 8" | "n mod 10 = 9"
proof -
  have "0 \<le> n mod 10" "n mod 10 < 10" by simp_all
  then show thesis using that by atomize_elim arith
qed

lemma of_char_digit: "of_char (digit n) = (48 + nat (n mod 10) :: nat)"
  by (cases n rule: digit_range) (simp_all add: digit_def)

lemma digit_val_digit: "digit_val (digit n) = n mod 10"
  by (simp add: digit_val_def of_char_digit)

lemma is_digit_digit: "is_digit (digit n)"
  by (cases n rule: digit_range) (simp_all add: digit_def is_digit_def)

lemma digit_less_iff: "digit a < digit b \<longleftrightarrow> a mod 10 < b mod 10"
proof -
  have "0 \<le> a mod 10" "0 \<le> b mod 10" by simp_all
  then show ?thesis
    unfolding less_char_def of_char_digit by linarith
qed

lemma digit_eq_iff: "digit a = digit b \<longleftrightarrow> a mod 10 = b mod 10"
proof
  assume "digit a = digit b"
  then have "digit_val (digit a) = digit_val (digit b)" by simp
  then show "a mod 10 = b mod 10" by (simp add: digit_val_digit)
next
  assume "a mod 10 = b mod 10"
  then show "digit a = digit b" by (simp add: digit_def)
qed

lemma zfill2_less:
  assumes "0 \<le> a" "a < b" "b < 100"
  shows "zfill2 a < zfill2 b"
proof -
  have "(a div 10) mod 10 < (b div 10) mod 10
          \<or> ((a div 10) mod 10 = (b div 10) mod 10 \<and> a mod 10 < b mod 10)"
    by (rule digits_order[OF assms])
  then show ?thesis
    by (simp add: zfill2_def digit_less_iff digit_eq_iff)
qed

lemma append_less_append: "(xs :: 'a::linorder list) @ ys < xs @ zs \<longleftrightarrow> ys < zs"
  by (induction xs) simp_all

lemma iso_date_less:
  assumes "0 \<le> a" "a < b" "b < 100"
  shows "iso_date y m a < iso_date y m b"
  unfolding iso_date_def append_less_append
  by (rule zfill2_less[OF assms])

lemma int_of_digits_zfill2:
  assumes "0 \<le> n" "n < 100"
  shows "int_of_digits (zfill2 n) = n"
proof -
  have "int_of_digits (zfill2 n) = 10 * (n div 10 mod 10) + n mod 10"
    by (simp only: int_of_digits_def zfill2_def foldl.simps digit_val_digit mult_zero_right
        add_0_left)
  also have "\<dots> = n" by (rule digits2_value[OF assms])
  finally show ?thesis .
qed

lemma int_of_digits_zfill4:
  assumes "0 \<le> n" "n < 10000"
  shows "int_of_digits (zfill4 n) = n"
proof -
  have "int_of_digits (zfill4 n)
      = 10 * (10 * (10 * (n div 1000 mod 10) + n div 100 mod 10) + n div 10 mod 10) + n mod 10"
    by (simp only: int_of_digits_def zfill4_def foldl.simps digit_val_digit mult_zero_right
        add_0_left)
  also have "\<dots> = n" by (rule digits4_value[OF assms])
  finally show ?thesis .
qed

lemma to_datetime_iso_date:
  assumes "supported_month y m" "1 \<le> d" "d \<le> days_in_month y m"
  shows "to_datetime (iso_date y m d) = Inr (ymd2ord y m d)"
proof -
  note ym = supported_month_year[OF assms(1)]
  have d31: "d \<le> 31" using days_in_month_bounds(2)[OF ym(3,4), of y] assms(3) by simp
  have shape: "length (iso_date y m d) = 10" "iso_date y m d ! 4 = CHR ''-''"
    "iso_date y m d ! 7 = CHR ''-''"
    "take 4 (iso_date y m d) = zfill4 y" "take 2 (drop 5 (iso_date y m d)) = zfill2 m"
    "drop 8 (iso_date y m d) = zfill2 d"
    by (simp_all add: iso_date_def zfill4_def zfill2_def)
  have digits: "list_all is_digit (zfill4 y @ zfill2 m @ zfill2 d)"
    by (simp add: zfill4_def zfill2_def is_digit_digit)
  have vals: "int_of_digits (zfill4 y) = y" "int_of_digits (zfill2 m) = m" "int_of_digits (zfill2 d) = d"
    using ym assms(2) d31 by (simp_all add: int_of_digits_zfill4 int_of_digits_zfill2)
  have date: "dt_date y m d = Inr (y, m, d)"
    using ym assms(2,3) d31 by (simp add: dt_date_def c_int_def MINYEAR_def MAXYEAR_def)
  have lo: "Timestamp_min \<le> ymd2ord y m 1" by (rule supported_month_lower[OF assms(1)])
  have hi: "ymd2ord y m 1 + days_in_month y m \<le> Timestamp_max"
    by (rule supported_month_upper[OF assms(1)])
  have ts: "Timestamp (y, m, d) = Inr (ymd2ord y m d)"
    using lo hi assms(2,3) by (simp add: Timestamp_def ymd2ord_def)
  show ?thesis
    unfolding to_datetime_def shape vals date using digits ts by simp
qed

section \<open>The claims about \<open>build_roster\<close>\<close>


lemma roster_2021_01:
  "build_roster 2021 1 [''Sunday'' \<mapsto> [''?'', ''?'']] None = Inr
    [\<lparr>date = ''2021-01-03'', weekday = ''Sunday'', volunteers = ''? & ?'', notes = ''''\<rparr>,
     \<lparr>date = ''2021-01-10'', weekday = ''Sunday'', volunteers = ''? & ?'', notes = ''''\<rparr>,
     \<lparr>date = ''2021-01-17'', weekday = ''Sunday'', volunteers = ''? & ?'', notes = ''''\<rparr>,
     \<lparr>date = ''2021-01-24'', weekday = ''Sunday'', volunteers = ''? & ?'', notes = ''''\<rparr>,
     \<lparr>date = ''2021-01-31'', weekday = ''Sunday'', volunteers = ''? & ?'', notes = ''''\<rparr>]"
  by code_simp


lemma roster_row_simps:
  "date (roster_row y m vbw mt d) = iso_date y m d"
  "weekday (roster_row y m vbw mt d) = weekday_name y m d"
  "volunteers (roster_row y m vbw mt d) = join '' & '' (the (vbw (weekday_name y m d)))"
  "notes (roster_row y m vbw mt d)
     = (if in_meeting_window mt (weekday_name y m d) d then meeting_note (the mt) else [])"
  by (simp_all add: roster_row_def)

lemma day_of_month_roster_row:
  assumes "supported_month y m" "d \<in> set (roster_days y m vbw)"
  shows "day_of_month (roster_row y m vbw mt d) = d"
proof -
  note ym = supported_month_year[OF assms(1)]
  note d = roster_days_range[OF assms(2)]
  have "d \<le> 31" using days_in_month_bounds(2)[OF ym(3,4), of y] d(2) by simp
  then have "int_of_digits (zfill2 d) = d" using d(1) by (intro int_of_digits_zfill2) simp_all
  moreover have "drop 8 (iso_date y m d) = zfill2 d"
    by (simp add: iso_date_def zfill4_def zfill2_def)
  ultimately show ?thesis by (simp add: day_of_month_def roster_row_simps)
qed

text \<open>
  C2. When \<open>build_roster\<close> is called with a meeting \<open>(weekday, n, start, end)\<close>, the
  notes of a record are \<open>Staff meeting start--end\<close> when the weekday of the record is the
  meeting weekday and its day of the month \<open>d\<close> satisfies \<open>7 * (n - 1) \<le> d \<le> 7 * n\<close>,
  and the empty string otherwise.
\<close>

theorem build_roster_meeting_notes:
  assumes "build_roster y m vbw (Some (mw, n, start, end)) = Inr roster"
  shows "\<forall>r \<in> set roster.
           notes r = (if weekday r = mw \<and> 7 * (n - 1) \<le> day_of_month r \<and> day_of_month r \<le> 7 * n
                      then ''Staff meeting '' @ start @ ''--'' @ end else '''')"
proof
  fix r assume "r \<in> set roster"
  note b = build_roster_InrD[OF assms]
  from \<open>r \<in> set roster\<close> obtain d where d: "d \<in> set (roster_days y m vbw)"
    and r: "r = roster_row y m vbw (Some (mw, n, start, end)) d"
    unfolding b(2) by auto
  have dom: "day_of_month r = d" unfolding r by (rule day_of_month_roster_row[OF b(1) d])
  show "notes r = (if weekday r = mw \<and> 7 * (n - 1) \<le> day_of_month r \<and> day_of_month r \<le> 7 * n
                   then ''Staff meeting '' @ start @ ''--'' @ end else '''')"
    unfolding dom unfolding r
    by (simp add: roster_row_simps in_meeting_window_def meeting_note_def)
qed

lemma roster_2021_01_meeting:
  "build_roster 2021 1 [''Sunday'' \<mapsto> [''A'', ''B'']] (Some (''Sunday'', 1, ''15:00'', ''16:00''))
     = Inr
    [\<lparr>date = ''2021-01-03'', weekday = ''Sunday'', volunteers = ''A & B'',
      notes = ''Staff meeting 15:00--16:00''\<rparr>,
     \<lparr>date = ''2021-01-10'', weekday = ''Sunday'', volunteers = ''A & B'', notes = ''''\<rparr>,
     \<lparr>date = ''2021-01-17'', weekday = ''Sunday'', volunteers = ''A & B'', notes = ''''\<rparr>,
     \<lparr>date = ''2021-01-24'', weekday = ''Sunday'', volunteers = ''A & B'', notes = ''''\<rparr>,
     \<lparr>date = ''2021-01-31'', weekday = ''Sunday'', volunteers = ''A & B'', notes = ''''\<rparr>]"
  by code_simp

theorem build_roster_meeting_notes_witness:
  "build_roster 2021 1 [''Sunday'' \<mapsto> [''A'', ''B'']] (Some (''Sunday'', 1, ''15:00'', ''16:00''))
     = Inr
    [\<lparr>date = ''2021-01-03'', weekday = ''Sunday'', volunteers = ''A & B'',
      notes = ''Staff meeting 15:00--16:00''\<rparr>,
     \<lparr>date = ''2021-01-10'', weekday = ''Sunday'', volunteers = ''A & B'', notes = ''''\<rparr>,
     \<lparr>date = ''2021-01-17'', weekday = ''Sunday'', volunteers = ''A & B'', notes = ''''\<rparr>,
     \<lparr>date = ''2021-01-24'', weekday = ''Sunday'', volunteers = ''A & B'', notes = ''''\<rparr>,
     \<lparr>date = ''2021-01-31'', weekday = ''Sunday'', volunteers = ''A & B'', notes = ''''\<rparr>]
   \<and> day_of_month \<lparr>date = ''2021-01-03'', weekday = ''Sunday'', volunteers = ''A & B'',
                 notes = ''Staff meeting 15:00--16:00''\<rparr> = 3
   \<and> notes \<lparr>date = ''2021-01-03'', weekday = ''Sunday'', volunteers = ''A & B'',
                 notes = ''Staff meeting 15:00--16:00''\<rparr>
       = (if weekday \<lparr>date = ''2021-01-03'', weekday = ''Sunday'', volunteers = ''A & B'',
                 notes = ''Staff meeting 15:00--16:00''\<rparr> = ''Sunday''
             \<and> 7 * (1 - 1) \<le> day_of_month \<lparr>date = ''2021-01-03'', weekday = ''Sunday'', volunteers = ''A & B'',
                 notes = ''Staff meeting 15:00--16:00''\<rparr>
             \<and> day_of_month \<lparr>date = ''2021-01-03'', weekday = ''Sunday'', volunteers = ''A & B'',
                 notes = ''Staff meeting 15:00--16:00''\<rparr> \<le> 7 * 1
          then ''Staff meeting '' @ ''15:00'' @ ''--'' @ ''16:00'' else '''')
   \<and> day_of_month \<lparr>date = ''2021-01-10'', weekday = ''Sunday'', volunteers = ''A & B'', notes = ''''\<rparr> = 10
   \<and> notes \<lparr>date = ''2021-01-10'', weekday = ''Sunday'', volunteers = ''A & B'', notes = ''''\<rparr>
       = (if weekday \<lparr>date = ''2021-01-10'', weekday = ''Sunday'', volunteers = ''A & B'', notes = ''''\<rparr> = ''Sunday''
             \<and> 7 * (1 - 1) \<le> day_of_month \<lparr>date = ''2021-01-10'', weekday = ''Sunday'', volunteers = ''A & B'', notes = ''''\<rparr>
             \<and> day_of_month \<lparr>date = ''2021-01-10'', weekday = ''Sunday'', volunteers = ''A & B'', notes = ''''\<rparr> \<le> 7 * 1
          then ''Staff meeting '' @ ''15:00'' @ ''--'' @ ''16:00'' else '''')"
proof -
  note t = build_roster_meeting_notes[OF roster_2021_01_meeting]
  have d1: "day_of_month \<lparr>date = ''2021-01-03'', weekday = ''Sunday'', volunteers = ''A & B'',
                 notes = ''Staff meeting 15:00--16:00''\<rparr> = 3"
    and d2: "day_of_month \<lparr>date = ''2021-01-10'', weekday = ''Sunday'', volunteers = ''A & B'', notes = ''''\<rparr> = 10"
    by code_simp+
  have n1: "notes \<lparr>date = ''2021-01-03'', weekday = ''Sunday'', volunteers = ''A & B'',
                 notes = ''Staff meeting 15:00--16:00''\<rparr>
       = (if weekday \<lparr>date = ''2021-01-03'', weekday = ''Sunday'', volunteers = ''A & B'',
                 notes = ''Staff meeting 15:00--16:00''\<rparr> = ''Sunday''
             \<and> 7 * (1 - 1) \<le> day_of_month \<lparr>date = ''2021-01-03'', weekday = ''Sunday'', volunteers = ''A & B'',
                 notes = ''Staff meeting 15:00--16:00''\<rparr>
             \<and> day_of_month \<lparr>date = ''2021-01-03'', weekday = ''Sunday'', volunteers = ''A & B'',
                 notes = ''Staff meeting 15:00--16:00''\<rparr> \<le> 7 * 1
          then ''Staff meeting '' @ ''15:00'' @ ''--'' @ ''16:00'' else '''')"
    by (rule bspec[OF t]) simp
  have n2: "notes \<lparr>date = ''2021-01-10'', weekday = ''Sunday'', volunteers = ''A & B'', notes = ''''\<rparr>
       = (if weekday \<lparr>date = ''2021-01-10'', weekday = ''Sunday'', volunteers = ''A & B'', notes = ''''\<rparr> = ''Sunday''
             \<and> 7 * (1 - 1) \<le> day_of_month \<lparr>date = ''2021-01-10'', weekday = ''Sunday'', volunteers = ''A & B'', notes = ''''\<rparr>
             \<and> day_of_month \<lparr>date = ''2021-01-10'', weekday = ''Sunday'', volunteers = ''A & B'', notes = ''''\<rparr> \<le> 7 * 1
          then ''Staff meeting '' @ ''15:00'' @ ''--'' @ ''16:00'' else '''')"
    by (rule bspec[OF t]) simp
  show ?thesis
    by (rule conjI[OF roster_2021_01_meeting conjI[OF d1 conjI[OF n1 conjI[OF d2 n2]]]])
qed

text \<open>
  C3. One call of \<open>build_roster\<close> can mark two records: in January 2021 the Thursdays
  fall on the days 7, 14, 21 and 28, and the window of the second week, the days 7 to 14,
  holds two of them.
\<close>

theorem build_roster_meeting_twice:
  "build_roster 2021 1 [''Thursday'' \<mapsto> [''A'']] (Some (''Thursday'', 2, ''15:00'', ''16:00''))
     = Inr
    [\<lparr>date = ''2021-01-07'', weekday = ''Thursday'', volunteers = ''A'',
      notes = ''Staff meeting 15:00--16:00''\<rparr>,
     \<lparr>date = ''2021-01-14'', weekday = ''Thursday'', volunteers = ''A'',
      notes = ''Staff meeting 15:00--16:00''\<rparr>,
     \<lparr>date = ''2021-01-21'', weekday = ''Thursday'', volunteers = ''A'', notes = ''''\<rparr>,
     \<lparr>date = ''2021-01-28'', weekday = ''Thursday'', volunteers = ''A'', notes = ''''\<rparr>]"
  by code_simp

text \<open>
  C6. The volunteers of every record are the names listed for the weekday of the record,
  joined with \<open>" & "\<close> in the order of the list, each name as it was given.
\<close>

theorem build_roster_volunteers:
  assumes "build_roster y m vbw meeting_time = Inr roster"
  shows "\<forall>r \<in> set roster.
           \<exists>names. vbw (weekday r) = Some names \<and> volunteers r = join '' & '' names"
proof
  fix r assume "r \<in> set roster"
  note b = build_roster_InrD[OF assms]
  from \<open>r \<in> set roster\<close> obtain d where d: "d \<in> set (roster_days y m vbw)"
    and r: "r = roster_row y m vbw meeting_time d"
    unfolding b(2) by auto
  from roster_days_range(3)[OF d] obtain names where "vbw (weekday_name y m d) = Some names"
    by blast
  then show "\<exists>names. vbw (weekday r) = Some names \<and> volunteers r = join '' & '' names"
    unfolding r by (simp add: roster_row_simps)
qed

lemma roster_2021_02_names:
  "build_roster 2021 2 [''Monday'' \<mapsto> [''Tommy '', '' Etienne'', ''Tommy '']] None = Inr
    [\<lparr>date = ''2021-02-01'', weekday = ''Monday'',
      volunteers = ''Tommy  &  Etienne & Tommy '', notes = ''''\<rparr>,
     \<lparr>date = ''2021-02-08'', weekday = ''Monday'',
      volunteers = ''Tommy  &  Etienne & Tommy '', notes = ''''\<rparr>,
     \<lparr>date = ''2021-02-15'', weekday = ''Monday'',
      volunteers = ''Tommy  &  Etienne & Tommy '', notes = ''''\<rparr>,
     \<lparr>date = ''2021-02-22'', weekday = ''Monday'',
      volunteers = ''Tommy  &  Etienne & Tommy '', notes = ''''\<rparr>]"
  by code_simp

theorem build_roster_volunteers_witness:
  "build_roster 2021 2 [''Monday'' \<mapsto> [''Tommy '', '' Etienne'', ''Tommy '']] None = Inr
    [\<lparr>date = ''2021-02-01'', weekday = ''Monday'',
      volunteers = ''Tommy  &  Etienne & Tommy '', notes = ''''\<rparr>,
     \<lparr>date = ''2021-02-08'', weekday = ''Monday'',
      volunteers = ''Tommy  &  Etienne & Tommy '', notes = ''''\<rparr>,
     \<lparr>date = ''2021-02-15'', weekday = ''Monday'',
      volunteers = ''Tommy  &  Etienne & Tommy '', notes = ''''\<rparr>,
     \<lparr>date = ''2021-02-22'', weekday = ''Monday'',
      volunteers = ''Tommy  &  Etienne & Tommy '', notes = ''''\<rparr>]
   \<and> (\<exists>names. [''Monday'' \<mapsto> [''Tommy '', '' Etienne'', ''Tommy '']]
                   (weekday \<lparr>date = ''2021-02-01'', weekday = ''Monday'',
                    volunteers = ''Tommy  &  Etienne & Tommy '', notes = ''''\<rparr>) = Some names
               \<and> volunteers \<lparr>date = ''2021-02-01'', weekday = ''Monday'',
                    volunteers = ''Tommy  &  Etienne & Tommy '', notes = ''''\<rparr> = join '' & '' names)
   \<and> join '' & '' [''Tommy '', '' Etienne'', ''Tommy ''] = ''Tommy  &  Etienne & Tommy ''"
proof -
  note t = build_roster_volunteers[OF roster_2021_02_names]
  have 1: "\<exists>names. [''Monday'' \<mapsto> [''Tommy '', '' Etienne'', ''Tommy '']]
                   (weekday \<lparr>date = ''2021-02-01'', weekday = ''Monday'',
                    volunteers = ''Tommy  &  Etienne & Tommy '', notes = ''''\<rparr>) = Some names
               \<and> volunteers \<lparr>date = ''2021-02-01'', weekday = ''Monday'',
                    volunteers = ''Tommy  &  Etienne & Tommy '', notes = ''''\<rparr> = join '' & '' names"
    by (rule bspec[OF t]) simp
  have 2: "join '' & '' [''Tommy '', '' Etienne'', ''Tommy ''] = ''Tommy  &  Etienne & Tommy ''"
    by code_simp
  show ?thesis by (rule conjI[OF roster_2021_02_names conjI[OF 1 2]])
qed

text \<open>
  C5. The date strings of a roster are strictly ascending, so no date occurs twice, and
  the weekday of every record is the name of the weekday of the day its date string names.
\<close>

theorem build_roster_sorted:
  assumes "build_roster y m vbw meeting_time = Inr roster"
  shows "sorted_wrt (<) (map date roster) \<and> distinct (map date roster)
         \<and> (\<forall>r \<in> set roster. \<exists>t. to_datetime (date r) = Inr t \<and> weekday r = day_name t)"
proof -
  note b = build_roster_InrD[OF assms]
  note ym = supported_month_year[OF b(1)]
  have dates: "map date roster = map (iso_date y m) (roster_days y m vbw)"
    unfolding b(2) by (simp add: roster_row_simps comp_def)
  have "sorted_wrt (<) (roster_days y m vbw)"
    unfolding roster_days_def by (rule sorted_wrt_filter) simp
  then have "sorted_wrt (\<lambda>a b. iso_date y m a < iso_date y m b) (roster_days y m vbw)"
  proof (rule sorted_wrt_mono_rel[rotated])
    fix a b assume a: "a \<in> set (roster_days y m vbw)" and b: "b \<in> set (roster_days y m vbw)"
      and "a < b"
    have "b \<le> 31"
      using days_in_month_bounds(2)[OF ym(3,4), of y] roster_days_range(2)[OF b] by simp
    then show "iso_date y m a < iso_date y m b"
      using roster_days_range(1)[OF a] \<open>a < b\<close> by (intro iso_date_less) simp_all
  qed
  then have s: "sorted_wrt (<) (map date roster)"
    unfolding dates sorted_wrt_map .
  then have "distinct (map date roster)"
    by (simp add: strict_sorted_iff)
  moreover have "\<forall>r \<in> set roster. \<exists>t. to_datetime (date r) = Inr t \<and> weekday r = day_name t"
  proof
    fix r assume "r \<in> set roster"
    then obtain d where d: "d \<in> set (roster_days y m vbw)"
      and r: "r = roster_row y m vbw meeting_time d"
      unfolding b(2) by auto
    have "to_datetime (date r) = Inr (ymd2ord y m d)"
      unfolding r roster_row_simps
      by (rule to_datetime_iso_date[OF b(1) roster_days_range(1,2)[OF d]])
    moreover have "weekday r = day_name (ymd2ord y m d)"
      unfolding r by (simp add: roster_row_simps weekday_name_def)
    ultimately show "\<exists>t. to_datetime (date r) = Inr t \<and> weekday r = day_name t" by blast
  qed
  ultimately show ?thesis using s by blast
qed

theorem build_roster_sorted_witness:
  "build_roster 2021 1 [''Sunday'' \<mapsto> [''?'', ''?'']] None = Inr
    [\<lparr>date = ''2021-01-03'', weekday = ''Sunday'', volunteers = ''? & ?'', notes = ''''\<rparr>,
     \<lparr>date = ''2021-01-10'', weekday = ''Sunday'', volunteers = ''? & ?'', notes = ''''\<rparr>,
     \<lparr>date = ''2021-01-17'', weekday = ''Sunday'', volunteers = ''? & ?'', notes = ''''\<rparr>,
     \<lparr>date = ''2021-01-24'', weekday = ''Sunday'', volunteers = ''? & ?'', notes = ''''\<rparr>,
     \<lparr>date = ''2021-01-31'', weekday = ''Sunday'', volunteers = ''? & ?'', notes = ''''\<rparr>]
   \<and> sorted_wrt (<)
        [''2021-01-03'', ''2021-01-10'', ''2021-01-17'', ''2021-01-24'', ''2021-01-31'']
   \<and> to_datetime ''2021-01-03'' = Inr 737793 \<and> day_name 737793 = ''Sunday''"
proof -
  have "sorted_wrt (<)
        [''2021-01-03'', ''2021-01-10'', ''2021-01-17'', ''2021-01-24'', ''2021-01-31'']"
    using build_roster_sorted[OF roster_2021_01] by simp
  moreover have "to_datetime ''2021-01-03'' = Inr 737793" by code_simp
  moreover have "day_name 737793 = ''Sunday''" by code_simp
  ultimately show ?thesis using roster_2021_01 by blast
qed

text \<open>
  C10. A meeting whose weekday is not a key of the mapping changes nothing: the result is
  the result of the call without a meeting, and every record has empty notes.
\<close>

theorem build_roster_meeting_ignored:
  assumes "mw \<notin> dom vbw"
  shows "build_roster y m vbw (Some (mw, n, start, end)) = build_roster y m vbw None
         \<and> (\<forall>roster. build_roster y m vbw (Some (mw, n, start, end)) = Inr roster
               \<longrightarrow> (\<forall>r \<in> set roster. notes r = ''''))"
proof (cases "supported_month y m")
  case True
  have rows: "roster_row y m vbw (Some (mw, n, start, end)) d = roster_row y m vbw None d"
    and empty: "notes (roster_row y m vbw None d) = ''''"
    if "d \<in> set (roster_days y m vbw)" for d
  proof -
    from roster_days_range(3)[OF that] assms have "weekday_name y m d \<noteq> mw" by auto
    then show "roster_row y m vbw (Some (mw, n, start, end)) d = roster_row y m vbw None d"
      by (simp add: roster_row_def in_meeting_window_def)
    show "notes (roster_row y m vbw None d) = ''''"
      by (simp add: roster_row_def in_meeting_window_def)
  qed
  have eq: "build_roster y m vbw (Some (mw, n, start, end)) = build_roster y m vbw None"
    unfolding build_roster_supported[OF True] using rows by simp
  moreover have "\<forall>r \<in> set roster. notes r = ''''"
    if "build_roster y m vbw (Some (mw, n, start, end)) = Inr roster" for roster
    using that empty rows unfolding build_roster_supported[OF True] by auto
  ultimately show ?thesis by blast
next
  case False
  then show ?thesis by (simp add: build_roster_unsupported)
qed

lemma roster_2021_01_meeting_ignored:
  "build_roster 2021 1 [''Sunday'' \<mapsto> [''?'', ''?'']] (Some (''Monday'', 1, ''15:00'', ''16:00''))
     = Inr
    [\<lparr>date = ''2021-01-03'', weekday = ''Sunday'', volunteers = ''? & ?'', notes = ''''\<rparr>,
     \<lparr>date = ''2021-01-10'', weekday = ''Sunday'', volunteers = ''? & ?'', notes = ''''\<rparr>,
     \<lparr>date = ''2021-01-17'', weekday = ''Sunday'', volunteers = ''? & ?'', notes = ''''\<rparr>,
     \<lparr>date = ''2021-01-24'', weekday = ''Sunday'', volunteers = ''? & ?'', notes = ''''\<rparr>,
     \<lparr>date = ''2021-01-31'', weekday = ''Sunday'', volunteers = ''? & ?'', notes = ''''\<rparr>]"
  by code_simp

theorem build_roster_meeting_ignored_witness:
  "''Monday'' \<notin> dom [''Sunday'' \<mapsto> [''?'', ''?'']]
   \<and> build_roster 2021 1 [''Sunday'' \<mapsto> [''?'', ''?'']] (Some (''Monday'', 1, ''15:00'', ''16:00''))
       = build_roster 2021 1 [''Sunday'' \<mapsto> [''?'', ''?'']] None
   \<and> build_roster 2021 1 [''Sunday'' \<mapsto> [''?'', ''?'']] (Some (''Monday'', 1, ''15:00'', ''16:00''))
       = Inr
    [\<lparr>date = ''2021-01-03'', weekday = ''Sunday'', volunteers = ''? & ?'', notes = ''''\<rparr>,
     \<lparr>date = ''2021-01-10'', weekday = ''Sunday'', volunteers = ''? & ?'', notes = ''''\<rparr>,
     \<lparr>date = ''2021-01-17'', weekday = ''Sunday'', volunteers = ''? & ?'', notes = ''''\<rparr>,
     \<lparr>date = ''2021-01-24'', weekday = ''Sunday'', volunteers = ''? & ?'', notes = ''''\<rparr>,
     \<lparr>date = ''2021-01-31'', weekday = ''Sunday'', volunteers = ''? & ?'', notes = ''''\<rparr>]"
proof -
  have k: "''Monday'' \<notin> dom [''Sunday'' \<mapsto> [''?'', ''?'']]" by simp
  note t = build_roster_meeting_ignored[OF k, of 2021 1 1 "''15:00''" "''16:00''"]
  show ?thesis
    by (rule conjI[OF k conjI[OF conjunct1[OF t] roster_2021_01_meeting_ignored]])
qed

text \<open>
  C7. Whether \<open>build_roster\<close> fails is not decided by the month being in 1 to 12 and
  the year alone: in the year 1677, which \<open>datetime\<close> accepts, the call for September
  fails and the call for October succeeds.
\<close>

theorem build_roster_fails_1677_09:
  "MINYEAR \<le> 1677 \<and> 1677 \<le> MAXYEAR
   \<and> build_roster 1677 9 Map.empty None = Inl OutOfBoundsDatetime
   \<and> build_roster 1677 10 Map.empty None = Inr []"
  by code_simp

text \<open>
  C7, as the code has it. \<open>build_roster\<close> fails exactly for the months that are not
  supported: a month outside 1 to 12, or a month before October 1677 or after March 2262.
  The mapping plays no part in it, and for a supported month the empty mapping gives the
  empty roster.
\<close>

theorem build_roster_fails_iff:
  "(isl (build_roster y m vbw meeting_time) \<longleftrightarrow> \<not> supported_month y m)
   \<and> (supported_month y m \<longrightarrow> build_roster y m Map.empty meeting_time = Inr [])"
proof (cases "supported_month y m")
  case True
  then show ?thesis
    by (simp add: build_roster_supported roster_days_def)
next
  case False
  then show ?thesis
    by (simp add: build_roster_unsupported)
qed

theorem build_roster_fails_iff_witness:
  "supported_month 2021 1
   \<and> \<not> isl (build_roster 2021 1 [''Sunday'' \<mapsto> [''?'', ''?'']] None)
   \<and> build_roster 2021 1 Map.empty None = Inr []
   \<and> \<not> supported_month 2021 13
   \<and> isl (build_roster 2021 13 [''Sunday'' \<mapsto> [''?'', ''?'']] None)"
proof -
  have s: "supported_month 2021 1" and u: "\<not> supported_month 2021 13"
    by (simp_all add: supported_month_def)
  note a = build_roster_fails_iff[of 2021 1 "[''Sunday'' \<mapsto> [''?'', ''?'']]" None]
  note b = build_roster_fails_iff[of 2021 13 "[''Sunday'' \<mapsto> [''?'', ''?'']]" None]
  have 1: "\<not> isl (build_roster 2021 1 [''Sunday'' \<mapsto> [''?'', ''?'']] None)"
    using conjunct1[OF a] s by simp
  have 2: "build_roster 2021 1 Map.empty None = Inr []"
    using conjunct2[OF a] s by simp
  have 3: "isl (build_roster 2021 13 [''Sunday'' \<mapsto> [''?'', ''?'']] None)"
    using conjunct1[OF b] u by simp
  show ?thesis by (rule conjI[OF s conjI[OF 1 conjI[OF 2 conjI[OF u 3]]]])
qed

section \<open>The claim about \<open>get_year_month\<close>\<close>






section \<open>The claims about \<open>to_markdown\<close>\<close>

lemma quote_field_plain:
  assumes "plain_field s"
  shows "quote_field s = s"
  using assms by (simp add: quote_field_def plain_field_def list_ex_iff list_all_iff)

lemma map_quote_field_plain:
  assumes "list_all plain_field row"
  shows "map quote_field row = row"
  using assms by (induction row) (simp_all add: quote_field_plain)

lemma plain_roster_iff:
  "plain_roster f \<longleftrightarrow> (\<forall>r \<in> set f. list_all plain_field (row_values r))"
  by (simp add: plain_roster_def list_all_iff)

lemma writerow_row_values:
  "writerow (row_values r) = join ''|'' (map quote_field (row_values r)) @ [CHR 0x0A]"
  by (simp add: writerow_def row_values_def delimiter_def lineterminator_def)

lemma writerow_columns: "writerow columns = plain_row columns"
  by (simp add: writerow_def columns_def plain_row_def delimiter_def lineterminator_def
      quote_field_def special_def quotechar_def escapechar_def)

lemma writerow_header: "writerow (replicate (length columns) ''---'') = plain_row (replicate 4 ''---'')"
  by (simp add: writerow_def columns_def plain_row_def delimiter_def lineterminator_def
      quote_field_def special_def quotechar_def escapechar_def numeral_eq_Suc)

lemma to_markdown_text:
  "to_markdown f None files
     = (Some (plain_row columns @ plain_row (replicate 4 ''---'')
              @ concat (map (\<lambda>r. join ''|'' (map quote_field (row_values r)) @ [CHR 0x0A]) f)),
        files)"
  by (simp add: to_markdown_def to_csv_def writerow_columns writerow_header comp_def
      writerow_row_values del: replicate.simps)

lemma to_markdown_file:
  "to_markdown f (Some p) files = (None, files(p \<mapsto> the (fst (to_markdown f None files))))"
  by (simp add: to_markdown_def Let_def)

text \<open>
  C4. The renderer does quote: a volunteer name with a \<open>|\<close> in it comes out between
  double quotes, so the row is not the four fields joined by \<open>|\<close> as they are.
\<close>

theorem pipe_field_is_quoted:
  "build_roster 2021 2 [''Monday'' \<mapsto> [''A|B'']] None = Inr
    [\<lparr>date = ''2021-02-01'', weekday = ''Monday'', volunteers = ''A|B'', notes = ''''\<rparr>,
     \<lparr>date = ''2021-02-08'', weekday = ''Monday'', volunteers = ''A|B'', notes = ''''\<rparr>,
     \<lparr>date = ''2021-02-15'', weekday = ''Monday'', volunteers = ''A|B'', notes = ''''\<rparr>,
     \<lparr>date = ''2021-02-22'', weekday = ''Monday'', volunteers = ''A|B'', notes = ''''\<rparr>]
   \<and> fst (to_markdown
    [\<lparr>date = ''2021-02-01'', weekday = ''Monday'', volunteers = ''A|B'', notes = ''''\<rparr>,
     \<lparr>date = ''2021-02-08'', weekday = ''Monday'', volunteers = ''A|B'', notes = ''''\<rparr>,
     \<lparr>date = ''2021-02-15'', weekday = ''Monday'', volunteers = ''A|B'', notes = ''''\<rparr>,
     \<lparr>date = ''2021-02-22'', weekday = ''Monday'', volunteers = ''A|B'', notes = ''''\<rparr>]
      None Map.empty)
     = Some (''date|weekday|volunteers|notes'' @ [CHR 0x0A]
              @ ''---|---|---|---'' @ [CHR 0x0A]
              @ ''2021-02-01|Monday|'' @ [CHR 0x22] @ ''A|B'' @ [CHR 0x22] @ ''|'' @ [CHR 0x0A]
              @ ''2021-02-08|Monday|'' @ [CHR 0x22] @ ''A|B'' @ [CHR 0x22] @ ''|'' @ [CHR 0x0A]
              @ ''2021-02-15|Monday|'' @ [CHR 0x22] @ ''A|B'' @ [CHR 0x22] @ ''|'' @ [CHR 0x0A]
              @ ''2021-02-22|Monday|'' @ [CHR 0x22] @ ''A|B'' @ [CHR 0x22] @ ''|'' @ [CHR 0x0A])
   \<and> fst (to_markdown
    [\<lparr>date = ''2021-02-01'', weekday = ''Monday'', volunteers = ''A|B'', notes = ''''\<rparr>,
     \<lparr>date = ''2021-02-08'', weekday = ''Monday'', volunteers = ''A|B'', notes = ''''\<rparr>,
     \<lparr>date = ''2021-02-15'', weekday = ''Monday'', volunteers = ''A|B'', notes = ''''\<rparr>,
     \<lparr>date = ''2021-02-22'', weekday = ''Monday'', volunteers = ''A|B'', notes = ''''\<rparr>]
      None Map.empty)
     \<noteq> Some (plain_table
    [\<lparr>date = ''2021-02-01'', weekday = ''Monday'', volunteers = ''A|B'', notes = ''''\<rparr>,
     \<lparr>date = ''2021-02-08'', weekday = ''Monday'', volunteers = ''A|B'', notes = ''''\<rparr>,
     \<lparr>date = ''2021-02-15'', weekday = ''Monday'', volunteers = ''A|B'', notes = ''''\<rparr>,
     \<lparr>date = ''2021-02-22'', weekday = ''Monday'', volunteers = ''A|B'', notes = ''''\<rparr>])"
  by code_simp

text \<open>
  C4, as the code has it. The separator of the table is the character \<open>|\<close>, and every
  row ends with a newline. Each field of a record goes through the quoting of the CSV
  writer: a plain field, one without \<open>|\<close>, double quote, newline or NUL, is written as
  it is, so a roster of plain fields is rendered as the table of the specification; any
  other field is written between double quotes, its own double quotes doubled.
\<close>

theorem to_markdown_rows:
  "to_markdown f None files
     = (Some (plain_row columns @ plain_row (replicate 4 ''---'')
              @ concat (map (\<lambda>r. join ''|'' (map quote_field (row_values r)) @ [CHR 0x0A]) f)),
        files)
   \<and> (\<forall>s. plain_field s \<longrightarrow> quote_field s = s)
   \<and> (\<forall>s. \<not> plain_field s \<longrightarrow>
          quote_field s
            = [CHR 0x22] @ concat (map (\<lambda>c. if c = CHR 0x22 then [c, c] else [c]) s) @ [CHR 0x22])
   \<and> (plain_roster f \<longrightarrow> to_markdown f None files = (Some (plain_table f), files))"
proof -
  have q: "\<forall>s. \<not> plain_field s \<longrightarrow>
          quote_field s
            = [CHR 0x22] @ concat (map (\<lambda>c. if c = CHR 0x22 then [c, c] else [c]) s) @ [CHR 0x22]"
    by (simp add: quote_field_def plain_field_def list_ex_iff list_all_iff quotechar_def)
  have p: "to_markdown f None files = (Some (plain_table f), files)"
    if "plain_roster f"
  proof -
    from that have pf: "\<forall>r \<in> set f. list_all plain_field (row_values r)"
      by (simp add: plain_roster_iff)
    have m: "map (\<lambda>r. join ''|'' (map quote_field (row_values r)) @ [CHR 0x0A]) f
            = map (\<lambda>r. plain_row (row_values r)) f"
      by (rule map_cong[OF refl]) (simp add: pf map_quote_field_plain plain_row_def)
    show ?thesis
      unfolding to_markdown_text m by (simp add: plain_table_def comp_def)
  qed
  show ?thesis using to_markdown_text[of f files] quote_field_plain q p by blast
qed

theorem to_markdown_rows_witness:
  "plain_field ''? & ?'' \<and> quote_field ''? & ?'' = ''? & ?''
   \<and> \<not> plain_field ''A|B'' \<and> quote_field ''A|B'' = [CHR 0x22] @ ''A|B'' @ [CHR 0x22]
   \<and> plain_roster [\<lparr>date = ''2021-01-03'', weekday = ''Sunday'', volunteers = ''? & ?'',
                     notes = ''''\<rparr>]
   \<and> to_markdown [\<lparr>date = ''2021-01-03'', weekday = ''Sunday'', volunteers = ''? & ?'',
                    notes = ''''\<rparr>] None Map.empty
       = (Some (''date|weekday|volunteers|notes'' @ [CHR 0x0A]
                @ ''---|---|---|---'' @ [CHR 0x0A]
                @ ''2021-01-03|Sunday|? & ?|'' @ [CHR 0x0A]), Map.empty)"
proof -
  let ?f = "[\<lparr>date = ''2021-01-03'', weekday = ''Sunday'', volunteers = ''? & ?'',
              notes = ''''\<rparr>]"
  note t = to_markdown_rows[of ?f Map.empty]
  have a: "plain_field ''? & ?''" by code_simp
  have b: "\<not> plain_field ''A|B''" by code_simp
  have c: "plain_roster ?f" by code_simp
  have qa: "quote_field ''? & ?'' = ''? & ?''"
    using conjunct1[OF conjunct2[OF t]] a by blast
  have qb: "quote_field ''A|B'' = [CHR 0x22] @ ''A|B'' @ [CHR 0x22]"
    using conjunct1[OF conjunct2[OF conjunct2[OF t]]] b by simp
  have pt: "plain_table ?f = ''date|weekday|volunteers|notes'' @ [CHR 0x0A]
                @ ''---|---|---|---'' @ [CHR 0x0A]
                @ ''2021-01-03|Sunday|? & ?|'' @ [CHR 0x0A]"
    by code_simp
  have d: "to_markdown ?f None Map.empty = (Some (plain_table ?f), Map.empty)"
    using conjunct2[OF conjunct2[OF conjunct2[OF t]]] c by blast
  show ?thesis
    by (rule conjI[OF a conjI[OF qa conjI[OF b conjI[OF qb conjI[OF c d[unfolded pt]]]]]])
qed

section \<open>Reading the rendered table back\<close>

lemma split_not_Nil: "split sep s \<noteq> []"
  by (induction s) (simp_all split: list.splits)

lemma split_no_sep:
  assumes "sep \<notin> set s"
  shows "split sep s = [s]"
  using assms by (induction s) auto

lemma split_append_sep:
  assumes "sep \<notin> set s"
  shows "split sep (s @ sep # rest) = s # split sep rest"
  using assms by (induction s) auto

lemma set_join: "set (join sep xs) \<subseteq> set sep \<union> (\<Union>x \<in> set xs. set x)"
  by (induction sep xs rule: join.induct) auto

lemma split_join:
  assumes "xs \<noteq> []" "\<forall>x \<in> set xs. sep \<notin> set x"
  shows "split sep (join [sep] xs) = xs"
  using assms
proof (induction "[sep]" xs rule: join.induct)
  case 1
  then show ?case by simp
next
  case (2 x)
  then show ?case by (simp add: split_no_sep)
next
  case (3 x y xs)
  then show ?case by (simp add: split_append_sep)
qed

lemma split_lines:
  assumes "\<forall>r \<in> set rows. nl \<notin> set r"
  shows "split nl (concat (map (\<lambda>r. r @ [nl]) rows)) = rows @ [[]]"
  using assms by (induction rows) (simp_all add: split_append_sep)

lemma table_lines_rows:
  assumes "\<forall>r \<in> set rows. CHR 0x0A \<notin> set r"
  shows "table_lines (concat (map (\<lambda>r. r @ [CHR 0x0A]) rows)) = rows"
  unfolding table_lines_def split_lines[OF assms] by simp

lemma plain_field_chars:
  assumes "plain_field s"
  shows "CHR ''|'' \<notin> set s" "CHR 0x0A \<notin> set s"
  using assms
  by (auto simp: plain_field_def list_all_iff special_def delimiter_def lineterminator_def)

lemma plain_row_fields:
  assumes "list_all plain_field row" "row \<noteq> []"
  shows "CHR 0x0A \<notin> set (join ''|'' row)" "split (CHR ''|'') (join ''|'' row) = row"
proof -
  have f: "\<forall>x \<in> set row. CHR ''|'' \<notin> set x" "\<forall>x \<in> set row. CHR 0x0A \<notin> set x"
    using assms(1) plain_field_chars by (auto simp: list_all_iff)
  show "CHR 0x0A \<notin> set (join ''|'' row)"
    using set_join[of "''|''" row] f(2) by auto
  show "split (CHR ''|'') (join ''|'' row) = row"
    by (rule split_join[OF assms(2) f(1)])
qed

lemma parse_table_plain_table:
  assumes "\<forall>r \<in> set f. list_all plain_field (row_values r)"
  shows "parse_table (plain_table f) = map row_values f"
proof -
  let ?rows = "columns # replicate 4 ''---'' # map row_values f"
  have plain: "\<forall>row \<in> set ?rows. list_all plain_field row \<and> row \<noteq> []"
  proof -
    have "list_all plain_field columns" "list_all plain_field (replicate 4 ''---'')"
      by (simp_all add: columns_def plain_field_def special_def delimiter_def quotechar_def
          escapechar_def lineterminator_def numeral_eq_Suc)
    moreover have "columns \<noteq> []" "replicate 4 ''---'' \<noteq> []"
      by (simp_all add: columns_def)
    moreover have "\<forall>r \<in> set f. row_values r \<noteq> []" by (simp add: row_values_def)
    ultimately show ?thesis using assms by auto
  qed
  have tbl: "plain_table f = concat (map (\<lambda>r. r @ [CHR 0x0A]) (map (join ''|'') ?rows))"
    unfolding plain_table_def map_map
    by (rule arg_cong[where f = concat]) (simp add: plain_row_def comp_def)
  have nl: "\<forall>r \<in> set (map (join ''|'') ?rows). CHR 0x0A \<notin> set r"
    using plain plain_row_fields(1) by auto
  have "map (split (CHR ''|'')) (map (join ''|'') ?rows) = ?rows"
    unfolding map_map
    by (rule map_idI) (use plain plain_row_fields(2) in auto)
  then show ?thesis
    unfolding parse_table_def tbl table_lines_rows[OF nl] by simp
qed

text \<open>
  C9. Rendering and reading back does not return every roster: the quotes that the
  renderer puts around a field with a \<open>|\<close> in it are kept by the reader, which then
  splits the field in two.
\<close>

theorem pipe_field_not_read_back:
  "build_roster 2021 2 [''Monday'' \<mapsto> [''A|B'']] None = Inr
    [\<lparr>date = ''2021-02-01'', weekday = ''Monday'', volunteers = ''A|B'', notes = ''''\<rparr>,
     \<lparr>date = ''2021-02-08'', weekday = ''Monday'', volunteers = ''A|B'', notes = ''''\<rparr>,
     \<lparr>date = ''2021-02-15'', weekday = ''Monday'', volunteers = ''A|B'', notes = ''''\<rparr>,
     \<lparr>date = ''2021-02-22'', weekday = ''Monday'', volunteers = ''A|B'', notes = ''''\<rparr>]
   \<and> parse_table (the (fst (to_markdown
    [\<lparr>date = ''2021-02-01'', weekday = ''Monday'', volunteers = ''A|B'', notes = ''''\<rparr>,
     \<lparr>date = ''2021-02-08'', weekday = ''Monday'', volunteers = ''A|B'', notes = ''''\<rparr>,
     \<lparr>date = ''2021-02-15'', weekday = ''Monday'', volunteers = ''A|B'', notes = ''''\<rparr>,
     \<lparr>date = ''2021-02-22'', weekday = ''Monday'', volunteers = ''A|B'', notes = ''''\<rparr>]
      None Map.empty)))
     = [[''2021-02-01'', ''Monday'', [CHR 0x22, CHR ''A''], [CHR ''B'', CHR 0x22], ''''],
        [''2021-02-08'', ''Monday'', [CHR 0x22, CHR ''A''], [CHR ''B'', CHR 0x22], ''''],
        [''2021-02-15'', ''Monday'', [CHR 0x22, CHR ''A''], [CHR ''B'', CHR 0x22], ''''],
        [''2021-02-22'', ''Monday'', [CHR 0x22, CHR ''A''], [CHR ''B'', CHR 0x22], '''']]
   \<and> parse_table (the (fst (to_markdown
    [\<lparr>date = ''2021-02-01'', weekday = ''Monday'', volunteers = ''A|B'', notes = ''''\<rparr>,
     \<lparr>date = ''2021-02-08'', weekday = ''Monday'', volunteers = ''A|B'', notes = ''''\<rparr>,
     \<lparr>date = ''2021-02-15'', weekday = ''Monday'', volunteers = ''A|B'', notes = ''''\<rparr>,
     \<lparr>date = ''2021-02-22'', weekday = ''Monday'', volunteers = ''A|B'', notes = ''''\<rparr>]
      None Map.empty)))
     \<noteq> map row_values
    [\<lparr>date = ''2021-02-01'', weekday = ''Monday'', volunteers = ''A|B'', notes = ''''\<rparr>,
     \<lparr>date = ''2021-02-08'', weekday = ''Monday'', volunteers = ''A|B'', notes = ''''\<rparr>,
     \<lparr>date = ''2021-02-15'', weekday = ''Monday'', volunteers = ''A|B'', notes = ''''\<rparr>,
     \<lparr>date = ''2021-02-22'', weekday = ''Monday'', volunteers = ''A|B'', notes = ''''\<rparr>]"
  by code_simp

text \<open>
  C9, as the code has it. For a roster whose fields are all plain (no \<open>|\<close>, double
  quote, newline or NUL in them), rendering it and reading the text back, with the header
  row and the \<open>---\<close> row dropped, returns the fields of its records in order.
\<close>

theorem parse_table_to_markdown:
  assumes "plain_roster f"
  shows "\<exists>text. to_markdown f None files = (Some text, files)
                \<and> parse_table text = map row_values f"
proof -
  from assms have pf: "\<forall>r \<in> set f. list_all plain_field (row_values r)"
    by (simp add: plain_roster_iff)
  have m: "map (\<lambda>r. join ''|'' (map quote_field (row_values r)) @ [CHR 0x0A]) f
            = map (\<lambda>r. plain_row (row_values r)) f"
    by (rule map_cong[OF refl]) (simp add: pf map_quote_field_plain plain_row_def)
  have "to_markdown f None files = (Some (plain_table f), files)"
    unfolding to_markdown_text m by (simp add: plain_table_def comp_def)
  then show ?thesis using parse_table_plain_table[OF pf] by blast
qed

theorem parse_table_to_markdown_witness:
  "plain_roster
    [\<lparr>date = ''2021-01-03'', weekday = ''Sunday'', volunteers = ''? & ?'', notes = ''''\<rparr>,
     \<lparr>date = ''2021-01-10'', weekday = ''Sunday'', volunteers = ''? & ?'',
      notes = ''Staff meeting 15:00--16:00''\<rparr>]
   \<and> (\<exists>text. to_markdown
    [\<lparr>date = ''2021-01-03'', weekday = ''Sunday'', volunteers = ''? & ?'', notes = ''''\<rparr>,
     \<lparr>date = ''2021-01-10'', weekday = ''Sunday'', volunteers = ''? & ?'',
      notes = ''Staff meeting 15:00--16:00''\<rparr>] None Map.empty = (Some text, Map.empty)
        \<and> parse_table text
            = [[''2021-01-03'', ''Sunday'', ''? & ?'', ''''],
               [''2021-01-10'', ''Sunday'', ''? & ?'', ''Staff meeting 15:00--16:00'']])"
proof -
  let ?f = "[\<lparr>date = ''2021-01-03'', weekday = ''Sunday'', volunteers = ''? & ?'', notes = ''''\<rparr>,
     \<lparr>date = ''2021-01-10'', weekday = ''Sunday'', volunteers = ''? & ?'',
      notes = ''Staff meeting 15:00--16:00''\<rparr>]"
  have c: "plain_roster ?f" by code_simp
  have v: "map row_values ?f = [[''2021-01-03'', ''Sunday'', ''? & ?'', ''''],
               [''2021-01-10'', ''Sunday'', ''? & ?'', ''Staff meeting 15:00--16:00'']]"
    by (simp add: row_values_def)
  show ?thesis
    by (rule conjI[OF c parse_table_to_markdown[OF c, of Map.empty, unfolded v]])
qed

end
